theory Spec2Isabelle
  imports Main "HOL-Library.AList"
begin

section \<open>Task Tracker: a shallow embedding of \<^verbatim>\<open>task_tracker.py\<close>\<close>

text \<open>
  The program is a menu loop over a Python list of dictionaries, saved as JSON in
  \<^verbatim>\<open>tasks.json\<close>. The embedding has four layers:
  \<^item> the string methods and conversions the program calls (\<^verbatim>\<open>strip\<close>,
    \<^verbatim>\<open>isdigit\<close>, \<^verbatim>\<open>int\<close>, \<^verbatim>\<open>str\<close>, \<^verbatim>\<open>strptime\<close>,
    \<^verbatim>\<open>strftime\<close>);
  \<^item> the JSON encoder and decoder behind \<^verbatim>\<open>json.dump(tasks, f, indent=2)\<close> and
    \<^verbatim>\<open>json.load(f)\<close>;
  \<^item> the world the program acts on: the lines still to come on standard input, what
    has been written to standard output, and the state of the data file;
  \<^item> the functions of the source, one definition each, under the source's names.

  Text read from the terminal and text of the data file is a \<^typ>\<open>string\<close>; a
  \<^typ>\<open>char\<close> stands for the Unicode code point of the same number, so the alphabet of
  the model is the first 256 code points. A string value inside a JSON document is a
  list of code points (\<^typ>\<open>nat list\<close>), because a \<^verbatim>\<open>\uXXXX\<close> escape can
  denote any of them.
\<close>

subsection \<open>Python string methods\<close>

text \<open>
  \<^verbatim>\<open>str.isspace\<close> on one character: the code points below 256 that Python
  counts as whitespace.
\<close>

definition isspace :: "char \<Rightarrow> bool" where
  "isspace c = (of_char c \<in> set [9, 10, 11, 12, 13, 28, 29, 30, 31, 32, 133, 160 :: nat])"

text \<open>\<^verbatim>\<open>str.strip()\<close>: whitespace is removed from both ends.\<close>

definition strip :: "string \<Rightarrow> string" where
  "strip s = rev (dropWhile isspace (rev (dropWhile isspace s)))"

text \<open>
  \<^verbatim>\<open>str.isdecimal\<close> and \<^verbatim>\<open>str.isdigit\<close> on one character. Below 256 the
  decimal characters are \<^verbatim>\<open>0\<close> to \<^verbatim>\<open>9\<close>; \<^verbatim>\<open>isdigit\<close> also holds of
  the superscript digits U+00B2, U+00B3 and U+00B9, which have the Unicode property
  \<^verbatim>\<open>Numeric_Type=Digit\<close> without being decimal.
\<close>

definition isdecimal_char :: "char \<Rightarrow> bool" where
  "isdecimal_char c = (48 \<le> (of_char c :: nat) \<and> (of_char c :: nat) \<le> 57)"

definition isdigit_char :: "char \<Rightarrow> bool" where
  "isdigit_char c = (isdecimal_char c \<or> c = CHR 0xB2 \<or> c = CHR 0xB3 \<or> c = CHR 0xB9)"

text \<open>\<^verbatim>\<open>str.isdigit()\<close>: at least one character, and every character a digit.\<close>

definition isdigit :: "string \<Rightarrow> bool" where
  "isdigit s = (s \<noteq> [] \<and> list_all isdigit_char s)"

text \<open>Python's exceptions, as far as the program can meet them.\<close>

datatype exn = EOFError | ValueError | IndexError | OSError | JSONDecodeError | UnicodeDecodeError

text \<open>
  The value of a string of decimal digits in base ten, and \<^verbatim>\<open>int(raw)\<close>.
  The program calls \<^verbatim>\<open>int\<close> only on a string that passed \<^verbatim>\<open>isdigit()\<close>,
  which has no sign, underscore or blank; on such a string \<^verbatim>\<open>int\<close> succeeds
  exactly when every character is a decimal digit and raises ValueError otherwise.
\<close>

definition digit_value :: "char \<Rightarrow> int" where
  "digit_value c = int (of_char c) - 48"

definition decimal_value :: "string \<Rightarrow> int" where
  "decimal_value s = foldl (\<lambda>a c. 10 * a + digit_value c) 0 s"

definition py_int :: "string \<Rightarrow> exn + int" where
  "py_int s = (if s \<noteq> [] \<and> list_all isdecimal_char s then Inr (decimal_value s)
               else Inl ValueError)"

text \<open>\<^verbatim>\<open>str(n)\<close> for an integer: decimal digits, with a minus sign when negative.\<close>

definition digit_char :: "nat \<Rightarrow> char" where
  "digit_char d = char_of (48 + d)"

fun nat_repr :: "nat \<Rightarrow> string" where
  "nat_repr n = (if n < 10 then [digit_char n] else nat_repr (n div 10) @ [digit_char (n mod 10)])"

definition int_repr :: "int \<Rightarrow> string" where
  "int_repr i = (if i < 0 then CHR ''-'' # nat_repr (nat (- i)) else nat_repr (nat i))"

text \<open>A number padded with zeros to at least \<open>w\<close> digits, as \<^verbatim>\<open>%02d\<close> does.\<close>

definition zero_pad :: "nat \<Rightarrow> nat \<Rightarrow> string" where
  "zero_pad w n = replicate (w - length (nat_repr n)) (CHR ''0'') @ nat_repr n"

subsection \<open>Dates: \<^verbatim>\<open>datetime.strptime\<close> and \<^verbatim>\<open>strftime\<close> with \<^verbatim>\<open>%Y-%m-%d\<close>\<close>

text \<open>
  \<^verbatim>\<open>strptime\<close> turns the format into the regular expression
  \<^verbatim>\<open>(?P<Y>\d\d\d\d)-(?P<m>1[0-2]|0[1-9]|[1-9])-(?P<d>3[0-1]|[1-2]\d|0[1-9]|[1-9]| [1-9])\<close>,
  matches it at the start of the string, and raises ValueError when it does not match,
  when characters remain after the match, or when the three numbers are not a date of
  the calendar. The alternatives are tried in the order written; a later one is taken
  only when the earlier ones fail or the rest of the pattern cannot match after them.
\<close>

record date =
  year :: nat
  month :: nat
  day :: nat

text \<open>The month field: every alternative that fits, in the order tried, each with the string after it.\<close>

fun match_month :: "string \<Rightarrow> (nat \<times> string) list" where
  "match_month (a # b # r) =
     (if a = CHR ''1'' \<and> b \<in> set ''012'' then [(10 + nat (digit_value b), r)] else []) @
     (if a = CHR ''0'' \<and> b \<in> set ''123456789'' then [(nat (digit_value b), r)] else []) @
     (if a \<in> set ''123456789'' then [(nat (digit_value a), b # r)] else [])"
| "match_month [a] = (if a \<in> set ''123456789'' then [(nat (digit_value a), [])] else [])"
| "match_month [] = []"

text \<open>The day field: the first alternative that fits, since nothing follows it in the pattern.\<close>

fun match_day :: "string \<Rightarrow> (nat \<times> string) option" where
  "match_day (a # b # r) =
     (if a = CHR ''3'' \<and> b \<in> set ''01'' then Some (30 + nat (digit_value b), r)
      else if a \<in> set ''12'' \<and> isdecimal_char b then Some (10 * nat (digit_value a) + nat (digit_value b), r)
      else if a = CHR ''0'' \<and> b \<in> set ''123456789'' then Some (nat (digit_value b), r)
      else if a \<in> set ''123456789'' then Some (nat (digit_value a), b # r)
      else if a = CHR '' '' \<and> b \<in> set ''123456789'' then Some (nat (digit_value b), r)
      else None)"
| "match_day [a] = (if a \<in> set ''123456789'' then Some (nat (digit_value a), []) else None)"
| "match_day [] = None"

text \<open>
  After the month a hyphen must follow; the first month alternative with a hyphen after
  it is the one the regular expression settles on.
\<close>

fun month_then_hyphen :: "(nat \<times> string) list \<Rightarrow> (nat \<times> string) option" where
  "month_then_hyphen [] = None"
| "month_then_hyphen ((m, r) # alts) =
     (case r of c # r' \<Rightarrow> if c = CHR ''-'' then Some (m, r') else month_then_hyphen alts
              | [] \<Rightarrow> month_then_hyphen alts)"

definition is_leap :: "nat \<Rightarrow> bool" where
  "is_leap y = (y mod 4 = 0 \<and> (y mod 100 \<noteq> 0 \<or> y mod 400 = 0))"

definition days_in_month :: "nat \<Rightarrow> nat \<Rightarrow> nat" where
  "days_in_month y m =
     (if m = 2 then (if is_leap y then 29 else 28)
      else if m \<in> set [4, 6, 9, 11] then 30 else 31)"

definition strptime :: "string \<Rightarrow> exn + date" where
  "strptime s =
     (case s of
        y1 # y2 # y3 # y4 # h # r \<Rightarrow>
          if list_all isdecimal_char [y1, y2, y3, y4] \<and> h = CHR ''-'' then
            (case month_then_hyphen (match_month r) of
               None \<Rightarrow> Inl ValueError
             | Some (m, r') \<Rightarrow>
                 (case match_day r' of
                    None \<Rightarrow> Inl ValueError
                  | Some (d, rest) \<Rightarrow>
                      let y = nat (decimal_value [y1, y2, y3, y4]) in
                      if rest \<noteq> [] then Inl ValueError
                      else if y < 1 then Inl ValueError
                      else if d < 1 \<or> days_in_month y m < d then Inl ValueError
                      else Inr \<lparr>year = y, month = m, day = d\<rparr>))
          else Inl ValueError
      | _ \<Rightarrow> Inl ValueError)"

text \<open>
  \<^verbatim>\<open>strftime("%Y-%m-%d")\<close>: the year in four digits, month and day in two. (The
  year is printed by the C library, and some print a year below 1000 without the
  leading zeros; the model follows the documented four digits.)
\<close>

definition strftime :: "date \<Rightarrow> string" where
  "strftime dt = zero_pad 4 (year dt) @ ''-'' @ zero_pad 2 (month dt) @ ''-'' @ zero_pad 2 (day dt)"

subsection \<open>JSON values and \<^verbatim>\<open>json.dump(obj, f, indent=2)\<close>\<close>

text \<open>
  What \<^verbatim>\<open>json.load\<close> can return: \<^verbatim>\<open>None\<close>, a bool, an int, a float, a
  str, a list or a dict. A dict keeps its keys in insertion order, so it is an
  association list. Floating point is not modelled: a float is kept as the text it was
  read from.
\<close>

datatype json =
    JNull
  | JBool bool
  | JInt int
  | JFloat string
  | JStr "nat list"
  | JArr "json list"
  | JObj "(nat list \<times> json) list"

definition hex_char :: "nat \<Rightarrow> char" where
  "hex_char d = ''0123456789abcdef'' ! d"

definition hex4 :: "nat \<Rightarrow> string" where
  "hex4 n = [hex_char (n div 4096 mod 16), hex_char (n div 256 mod 16),
             hex_char (n div 16 mod 16), hex_char (n mod 16)]"

text \<open>
  \<^verbatim>\<open>json.encoder.py_encode_basestring_ascii\<close> (\<^verbatim>\<open>ensure_ascii\<close> is on by
  default): the quotation mark and the backslash are escaped, the five named control
  characters have short escapes, the other printable ASCII characters stand for
  themselves, and everything else becomes \<^verbatim>\<open>\uXXXX\<close>, a code point from
  U+10000 on as a surrogate pair.
\<close>

definition encode_char :: "nat \<Rightarrow> string" where
  "encode_char c =
     (if c = 0x22 then [CHR 0x5C, CHR 0x22]
      else if c = 0x5C then [CHR 0x5C, CHR 0x5C]
      else if c = 0x0A then [CHR 0x5C, CHR ''n'']
      else if c = 0x0D then [CHR 0x5C, CHR ''r'']
      else if c = 0x09 then [CHR 0x5C, CHR ''t'']
      else if c = 0x08 then [CHR 0x5C, CHR ''b'']
      else if c = 0x0C then [CHR 0x5C, CHR ''f'']
      else if 0x20 \<le> c \<and> c \<le> 0x7E then [char_of c]
      else if c < 0x10000 then CHR 0x5C # CHR ''u'' # hex4 c
      else (let n = c - 0x10000 in
            CHR 0x5C # CHR ''u'' # hex4 (0xD800 + n div 1024 mod 1024) @
            CHR 0x5C # CHR ''u'' # hex4 (0xDC00 + n mod 1024)))"

definition encode_basestring_ascii :: "nat list \<Rightarrow> string" where
  "encode_basestring_ascii s = CHR 0x22 # concat (map encode_char s) @ [CHR 0x22]"

text \<open>
  The encoder with \<^verbatim>\<open>indent=2\<close>: the item separator is a comma followed by a
  new line and two blanks per nesting level, the key separator is a colon and a blank.
  An empty list is \<^verbatim>\<open>[]\<close> and an empty dict \<^verbatim>\<open>{}\<close>.
\<close>

definition newline_indent :: "nat \<Rightarrow> string" where
  "newline_indent level = CHR 0x0A # replicate (2 * level) (CHR '' '')"

fun join :: "string \<Rightarrow> string list \<Rightarrow> string" where
  "join sep [] = []"
| "join sep [x] = x"
| "join sep (x # y # ys) = x @ sep @ join sep (y # ys)"

fun iterencode :: "nat \<Rightarrow> json \<Rightarrow> string" where
  "iterencode level JNull = ''null''"
| "iterencode level (JBool b) = (if b then ''true'' else ''false'')"
| "iterencode level (JInt i) = int_repr i"
| "iterencode level (JFloat lexeme) = lexeme"
| "iterencode level (JStr s) = encode_basestring_ascii s"
| "iterencode level (JArr vs) =
     (if vs = [] then ''[]''
      else ''['' @ newline_indent (Suc level) @
           join (CHR '','' # newline_indent (Suc level)) (map (iterencode (Suc level)) vs) @
           newline_indent level @ '']'')"
| "iterencode level (JObj kvs) =
     (if kvs = [] then ''{}''
      else ''{'' @ newline_indent (Suc level) @
           join (CHR '','' # newline_indent (Suc level))
             (map (\<lambda>(k, v). encode_basestring_ascii k @ '': '' @ iterencode (Suc level) v) kvs) @
           newline_indent level @ ''}'')"

definition json_dumps :: "json \<Rightarrow> string" where
  "json_dumps v = iterencode 0 v"

subsection \<open>\<^verbatim>\<open>json.load\<close>\<close>

text \<open>
  The decoder follows \<^verbatim>\<open>json.decoder\<close> and \<^verbatim>\<open>json.scanner\<close>. Every way of
  failing raises JSONDecodeError, so a parser returns an option, \<open>None\<close> for the
  error. Interpreter limits (the recursion limit, the bound on the digits of an integer)
  are not modelled.
\<close>

definition json_ws :: "char \<Rightarrow> bool" where
  "json_ws c = (c = CHR '' '' \<or> c = CHR 0x09 \<or> c = CHR 0x0A \<or> c = CHR 0x0D)"

definition skip_ws :: "string \<Rightarrow> string" where
  "skip_ws s = dropWhile json_ws s"

definition hex_value :: "char \<Rightarrow> nat option" where
  "hex_value c =
     (let n = (of_char c :: nat) in
      if 48 \<le> n \<and> n \<le> 57 then Some (n - 48)
      else if 97 \<le> n \<and> n \<le> 102 then Some (n - 87)
      else if 65 \<le> n \<and> n \<le> 70 then Some (n - 55)
      else None)"

text \<open>
  \<^verbatim>\<open>_decode_uXXXX\<close>: the four hexadecimal digits after \<^verbatim>\<open>\u\<close>, with the
  text after them.
\<close>

fun decode_uXXXX :: "string \<Rightarrow> (nat \<times> string) option" where
  "decode_uXXXX (a # b # c # d # r) =
     (case (hex_value a, hex_value b, hex_value c, hex_value d) of
        (Some x, Some y, Some z, Some u) \<Rightarrow> Some (4096 * x + 256 * y + 16 * z + u, r)
      | _ \<Rightarrow> None)"
| "decode_uXXXX _ = None"

lemma decode_uXXXX_length:
  "decode_uXXXX s = Some (n, r) \<Longrightarrow> length s = length r + 4"
  by (induction s rule: decode_uXXXX.induct) (auto split: option.splits)

lemma decode_uXXXX_shorter:
  "decode_uXXXX s = Some x \<Longrightarrow> length s = length (snd x) + 4"
  by (cases x) (simp add: decode_uXXXX_length)

text \<open>The character after a backslash, other than \<^verbatim>\<open>u\<close>.\<close>

definition backslash_escape :: "char \<Rightarrow> nat option" where
  "backslash_escape e =
     (if e = CHR 0x22 then Some 0x22
      else if e = CHR 0x5C then Some 0x5C
      else if e = CHR ''/'' then Some 0x2F
      else if e = CHR ''b'' then Some 0x08
      else if e = CHR ''f'' then Some 0x0C
      else if e = CHR ''n'' then Some 0x0A
      else if e = CHR ''r'' then Some 0x0D
      else if e = CHR ''t'' then Some 0x09
      else None)"

text \<open>
  \<^verbatim>\<open>scanstring\<close> in strict mode, called after the opening quotation mark: it
  returns the decoded string and the text after the closing quotation mark. A control
  character inside the string, an unknown escape, bad hexadecimal digits and a missing
  closing mark are errors. A high surrogate followed by an escaped low surrogate is
  one code point.
\<close>

definition cons_char :: "nat \<Rightarrow> (nat list \<times> string) option \<Rightarrow> (nat list \<times> string) option" where
  "cons_char n res = map_option (\<lambda>(s, t). (n # s, t)) res"

function scanstring :: "string \<Rightarrow> (nat list \<times> string) option" where
  "scanstring [] = None"
| "scanstring (c # cs) =
     (if c = CHR 0x22 then Some ([], cs)
      else if c = CHR 0x5C then
        (case cs of
           [] \<Rightarrow> None
         | e # es \<Rightarrow>
             if e = CHR ''u'' then
               (case decode_uXXXX es of
                  None \<Rightarrow> None
                | Some (uni, r) \<Rightarrow>
                    if 0xD800 \<le> uni \<and> uni \<le> 0xDBFF \<and> take 2 r = [CHR 0x5C, CHR ''u''] then
                      (case decode_uXXXX (drop 2 r) of
                         None \<Rightarrow> None
                       | Some (uni2, r2) \<Rightarrow>
                           if 0xDC00 \<le> uni2 \<and> uni2 \<le> 0xDFFF then
                             cons_char (0x10000 + ((uni - 0xD800) * 1024 + (uni2 - 0xDC00))) (scanstring r2)
                           else cons_char uni (scanstring r))
                    else cons_char uni (scanstring r))
             else
               (case backslash_escape e of
                  None \<Rightarrow> None
                | Some n \<Rightarrow> cons_char n (scanstring es)))
      else if (of_char c :: nat) < 0x20 then None
      else cons_char (of_char c) (scanstring cs))"
  by pat_completeness auto
termination
  apply (relation "measure length")
  apply simp_all
  subgoal by (drule decode_uXXXX_shorter)+ (clarsimp, linarith)
  subgoal by (drule decode_uXXXX_shorter)+ clarsimp
  subgoal by (drule decode_uXXXX_shorter)+ clarsimp
  done

text \<open>
  \<^verbatim>\<open>match_number\<close>: an optional minus sign, then a zero or a digit from one to
  nine followed by digits. With a fraction (a point and digits) or an exponent after
  it the number is a float, otherwise an int. \<open>None\<close> when no number starts here.
\<close>

definition number_tail :: "string \<Rightarrow> string \<times> string" where
  "number_tail s =
     (let (frac, s1) =
            (case s of
               p # d # r \<Rightarrow>
                 if p = CHR ''.'' \<and> isdecimal_char d
                 then (p # takeWhile isdecimal_char (d # r), dropWhile isdecimal_char (d # r))
                 else ([], s)
             | _ \<Rightarrow> ([], s));
          (ex, s2) =
            (case s1 of
               e # r \<Rightarrow>
                 if e = CHR ''e'' \<or> e = CHR ''E'' then
                   (let (sign, r1) =
                          (case r of
                             g # r' \<Rightarrow> if g = CHR ''+'' \<or> g = CHR ''-'' then ([g], r') else ([], r)
                           | [] \<Rightarrow> ([], r))
                    in if r1 \<noteq> [] \<and> isdecimal_char (hd r1)
                       then (e # sign @ takeWhile isdecimal_char r1, dropWhile isdecimal_char r1)
                       else ([], s1))
                 else ([], s1)
             | [] \<Rightarrow> ([], s1))
      in (frac @ ex, s2))"

definition match_number :: "string \<Rightarrow> (json \<times> string) option" where
  "match_number s =
     (let (sign, s1) = (case s of c # r \<Rightarrow> if c = CHR ''-'' then ([c], r) else ([], s) | [] \<Rightarrow> ([], s))
      in case s1 of
           [] \<Rightarrow> None
         | c # r \<Rightarrow>
             if isdecimal_char c then
               (let ds = (if c = CHR ''0'' then [c] else c # takeWhile isdecimal_char r);
                    r1 = (if c = CHR ''0'' then r else dropWhile isdecimal_char r);
                    (tail, r2) = number_tail r1
                in if tail = [] then Some (JInt (if sign = [] then decimal_value ds else - decimal_value ds), r2)
                   else Some (JFloat (sign @ ds @ tail), r2))
             else None)"

text \<open>\<^verbatim>\<open>dict(pairs)\<close>: a key that comes again keeps its place and takes the later value.\<close>

definition dict_of_pairs :: "(nat list \<times> json) list \<Rightarrow> (nat list \<times> json) list" where
  "dict_of_pairs ps = foldl (\<lambda>d (k, v). AList.update k v d) [] ps"

text \<open>
  \<^verbatim>\<open>scan_once\<close>, \<^verbatim>\<open>JSONArray\<close> and \<^verbatim>\<open>JSONObject\<close>. The three call each
  other on what is left of the text, so the recursion is on a counter that every call
  lowers by one; \<open>json_loads\<close> starts it above twice the length of the text, more than
  any descent can use, since each call but the first has consumed a character.
  \<open>parse_array\<close> reads the elements after the opening bracket of a list that is not
  empty, \<open>parse_object\<close> the pairs of a dict from the quotation mark of a key on.
\<close>

fun scan_once :: "nat \<Rightarrow> string \<Rightarrow> (json \<times> string) option"
  and parse_array :: "nat \<Rightarrow> string \<Rightarrow> (json list \<times> string) option"
  and parse_object :: "nat \<Rightarrow> string \<Rightarrow> ((nat list \<times> json) list \<times> string) option" where
  "scan_once 0 s = None"
| "scan_once (Suc n) [] = None"
| "scan_once (Suc n) (c # s) =
     (if c = CHR 0x22 then map_option (\<lambda>(str, r). (JStr str, r)) (scanstring s)
      else if c = CHR ''{'' then
        (case skip_ws s of
           [] \<Rightarrow> None
         | d # r \<Rightarrow>
             if d = CHR ''}'' then Some (JObj [], r)
             else if d = CHR 0x22 then map_option (\<lambda>(ps, r'). (JObj (dict_of_pairs ps), r')) (parse_object n (d # r))
             else None)
      else if c = CHR ''['' then
        (case skip_ws s of
           [] \<Rightarrow> None
         | d # r \<Rightarrow>
             if d = CHR '']'' then Some (JArr [], r)
             else map_option (\<lambda>(vs, r'). (JArr vs, r')) (parse_array n (d # r)))
      else if c = CHR ''n'' \<and> take 3 s = ''ull'' then Some (JNull, drop 3 s)
      else if c = CHR ''t'' \<and> take 3 s = ''rue'' then Some (JBool True, drop 3 s)
      else if c = CHR ''f'' \<and> take 4 s = ''alse'' then Some (JBool False, drop 4 s)
      else (case match_number (c # s) of
              Some res \<Rightarrow> Some res
            | None \<Rightarrow>
                if c = CHR ''N'' \<and> take 2 s = ''aN'' then Some (JFloat ''NaN'', drop 2 s)
                else if c = CHR ''I'' \<and> take 7 s = ''nfinity'' then Some (JFloat ''Infinity'', drop 7 s)
                else if c = CHR ''-'' \<and> take 8 s = ''Infinity'' then Some (JFloat ''-Infinity'', drop 8 s)
                else None))"
| "parse_array 0 s = None"
| "parse_array (Suc n) s =
     (case scan_once n s of
        None \<Rightarrow> None
      | Some (v, r) \<Rightarrow>
          (case skip_ws r of
             [] \<Rightarrow> None
           | d # r' \<Rightarrow>
               if d = CHR '']'' then Some ([v], r')
               else if d = CHR '','' then map_option (\<lambda>(vs, t). (v # vs, t)) (parse_array n (skip_ws r'))
               else None))"
| "parse_object 0 s = None"
| "parse_object (Suc n) s =
     (case s of
        [] \<Rightarrow> None
      | q # s1 \<Rightarrow>
          if q \<noteq> CHR 0x22 then None
          else
            (case scanstring s1 of
               None \<Rightarrow> None
             | Some (key, r) \<Rightarrow>
                 (case skip_ws r of
                    [] \<Rightarrow> None
                  | d # r1 \<Rightarrow>
                      if d \<noteq> CHR '':'' then None
                      else
                        (case scan_once n (skip_ws r1) of
                           None \<Rightarrow> None
                         | Some (v, r2) \<Rightarrow>
                             (case skip_ws r2 of
                                [] \<Rightarrow> None
                              | d2 # r3 \<Rightarrow>
                                  if d2 = CHR ''}'' then Some ([(key, v)], r3)
                                  else if d2 = CHR '','' then
                                    map_option (\<lambda>(ps, t). ((key, v) # ps, t)) (parse_object n (skip_ws r3))
                                  else None)))))"

text \<open>
  \<^verbatim>\<open>json.loads\<close>: blanks around the value are skipped, and nothing else may
  follow the value. (It also refuses a text that starts with the byte order mark
  U+FEFF, a code point outside the alphabet of the model.)
\<close>

definition json_loads :: "string \<Rightarrow> json option" where
  "json_loads s =
     (case scan_once (2 * length s + 1) (skip_ws s) of
        None \<Rightarrow> None
      | Some (v, r) \<Rightarrow> if skip_ws r = [] then Some v else None)"

subsection \<open>The data model\<close>

text \<open>
  A task is a dict with the keys \<^verbatim>\<open>id\<close>, \<^verbatim>\<open>title\<close>, \<^verbatim>\<open>due_date\<close> and
  \<^verbatim>\<open>is_complete\<close>, built in \<^verbatim>\<open>add_task\<close> and nowhere else. In memory it is a
  record; \<open>json_of_task\<close> is the dict it stands for, with the keys in the order
  \<^verbatim>\<open>add_task\<close> inserts them.
\<close>

record task =
  task_id :: int
  title :: string
  due_date :: "string option"
  is_complete :: bool

definition py_str :: "string \<Rightarrow> nat list" where
  "py_str s = map of_char s"

definition json_of_task :: "task \<Rightarrow> json" where
  "json_of_task t =
     JObj [(py_str ''id'', JInt (task_id t)),
           (py_str ''title'', JStr (py_str (title t))),
           (py_str ''due_date'', (case due_date t of None \<Rightarrow> JNull | Some d \<Rightarrow> JStr (py_str d))),
           (py_str ''is_complete'', JBool (is_complete t))]"

definition json_of_tasks :: "task list \<Rightarrow> json" where
  "json_of_tasks tasks = JArr (map json_of_task tasks)"

subsection \<open>The world: terminal and data file\<close>

text \<open>
  The data file \<^verbatim>\<open>tasks.json\<close> is in one of four states: it does not exist; it
  exists and opening or reading it raises OSError; it can be read and its bytes are
  not UTF-8, so that reading raises UnicodeDecodeError; or it holds a text. Writing is
  taken to succeed: the failures of \<^verbatim>\<open>open(DATA_FILE, "w")\<close>, which end the
  process, are not modelled.

  Standard input is the list of the lines still to come, without their line ends;
  \<^verbatim>\<open>input\<close> at the end of the input raises EOFError. Standard output is the list
  of what was written: \<open>Print s\<close> for \<^verbatim>\<open>print(s)\<close>, \<open>Prompt p\<close> for the prompt
  of \<^verbatim>\<open>input(p)\<close>.
\<close>

datatype data_file = Missing | Unreadable | Undecodable | Text string

datatype event = Print string | Prompt string

record world =
  stdin :: "string list"
  stdout :: "event list"
  disk :: data_file

definition print :: "string \<Rightarrow> world \<Rightarrow> world" where
  "print s w = w\<lparr>stdout := stdout w @ [Print s]\<rparr>"

definition input :: "string \<Rightarrow> world \<Rightarrow> (exn + string) \<times> world" where
  "input prompt w =
     (case stdin w of
        [] \<Rightarrow> (Inl EOFError, w\<lparr>stdout := stdout w @ [Prompt prompt]\<rparr>)
      | line # rest \<Rightarrow> (Inr line, w\<lparr>stdin := rest, stdout := stdout w @ [Prompt prompt]\<rparr>))"

lemma input_shorter:
  "input prompt w = (Inr line, w1) \<Longrightarrow> length (stdin w1) < length (stdin w)"
  by (auto simp: input_def split: list.splits)

lemma stdin_print [simp]: "stdin (print s w) = stdin w"
  by (simp add: print_def)

lemma disk_print [simp]: "disk (print s w) = disk w"
  by (simp add: print_def)

subsection \<open>Data helpers (source lines 23 to 59)\<close>

text \<open>
  \<^verbatim>\<open>open(DATA_FILE, "r", encoding="utf-8")\<close> followed by \<^verbatim>\<open>json.load(f)\<close>,
  with the exception each state of the file leads to.
\<close>

definition open_and_load :: "data_file \<Rightarrow> exn + json" where
  "open_and_load f =
     (case f of
        Missing \<Rightarrow> Inl OSError
      | Unreadable \<Rightarrow> Inl OSError
      | Undecodable \<Rightarrow> Inl UnicodeDecodeError
      | Text t \<Rightarrow> (case json_loads t of None \<Rightarrow> Inl JSONDecodeError | Some v \<Rightarrow> Inr v))"

text \<open>
  \<^verbatim>\<open>load_tasks\<close>: an empty list when the file does not exist; otherwise what
  \<^verbatim>\<open>json.load\<close> returns, with \<^verbatim>\<open>except (json.JSONDecodeError, OSError)\<close>
  turning these two exceptions into an empty list. Any other exception passes through.
\<close>

definition load_tasks :: "world \<Rightarrow> exn + json" where
  "load_tasks w =
     (if disk w = Missing then Inr (JArr [])
      else case open_and_load (disk w) of
             Inr v \<Rightarrow> Inr v
           | Inl e \<Rightarrow> if e = JSONDecodeError \<or> e = OSError then Inr (JArr []) else Inl e)"

text \<open>\<^verbatim>\<open>save_tasks\<close>: the file is overwritten with the JSON text of the list.\<close>

definition save_tasks :: "task list \<Rightarrow> world \<Rightarrow> world" where
  "save_tasks tasks w = w\<lparr>disk := Text (json_dumps (json_of_tasks tasks))\<rparr>"

text \<open>\<^verbatim>\<open>next_task_id\<close>: one for an empty list, otherwise the greatest id plus one.\<close>

definition next_task_id :: "task list \<Rightarrow> int" where
  "next_task_id tasks = (if tasks = [] then 1 else Max (set (map task_id tasks)) + 1)"

subsection \<open>Input helpers (source lines 64 to 104)\<close>

text \<open>
  Each \<^verbatim>\<open>while True\<close> loop is a recursion that ends when a line is accepted, when
  the input ends (EOFError) or when a call raises. It terminates because every round
  takes a line from the input.
\<close>

definition range_message :: "int \<Rightarrow> int \<Rightarrow> string" where
  "range_message min_value max_value =
     ''Please enter a number between '' @ int_repr min_value @ '' and '' @ int_repr max_value @ ''.''"

function read_int :: "string \<Rightarrow> int \<Rightarrow> int \<Rightarrow> world \<Rightarrow> (exn + int) \<times> world" where
  "read_int prompt min_value max_value w =
     (case input prompt w of
        (Inl e, w1) \<Rightarrow> (Inl e, w1)
      | (Inr line, w1) \<Rightarrow>
          (let raw = strip line in
           if isdigit raw then
             (case py_int raw of
                Inl e \<Rightarrow> (Inl e, w1)
              | Inr val \<Rightarrow>
                  if min_value \<le> val \<and> val \<le> max_value then (Inr val, w1)
                  else read_int prompt min_value max_value
                         (print (range_message min_value max_value) w1))
           else read_int prompt min_value max_value
                  (print (range_message min_value max_value) w1)))"
  by pat_completeness auto
termination
  by (relation "measure (\<lambda>(prompt, min_value, max_value, w). length (stdin w))")
     (auto dest: input_shorter [OF sym])

declare read_int.simps [simp del]

function read_non_empty :: "string \<Rightarrow> world \<Rightarrow> (exn + string) \<times> world" where
  "read_non_empty prompt w =
     (case input prompt w of
        (Inl e, w1) \<Rightarrow> (Inl e, w1)
      | (Inr line, w1) \<Rightarrow>
          (let txt = strip line in
           if txt \<noteq> [] then (Inr txt, w1)
           else read_non_empty prompt (print ''This field cannot be blank. Try again.'' w1)))"
  by pat_completeness auto
termination
  by (relation "measure (\<lambda>(prompt, w). length (stdin w))") (auto dest: input_shorter [OF sym])

declare read_non_empty.simps [simp del]

definition date_message :: string where
  "date_message = ''Invalid date. Use YYYY-MM-DD (example: 2026-01-16) or press Enter to skip.''"

function read_optional_date :: "string \<Rightarrow> world \<Rightarrow> (exn + string option) \<times> world" where
  "read_optional_date prompt w =
     (case input prompt w of
        (Inl e, w1) \<Rightarrow> (Inl e, w1)
      | (Inr line, w1) \<Rightarrow>
          (let raw = strip line in
           if raw = [] then (Inr None, w1)
           else
             (case strptime raw of
                Inr dt \<Rightarrow> (Inr (Some (strftime dt)), w1)
              | Inl e \<Rightarrow>
                  if e = ValueError then
                    read_optional_date prompt (print date_message w1)
                  else (Inl e, w1))))"
  by pat_completeness auto
termination
  by (relation "measure (\<lambda>(prompt, w). length (stdin w))") (auto dest: input_shorter [OF sym])

declare read_optional_date.simps [simp del]

definition pause :: "world \<Rightarrow> (exn + unit) \<times> world" where
  "pause w =
     (case input (CHR 0x0A # ''Press Enter to continue...'') w of
        (Inl e, w1) \<Rightarrow> (Inl e, w1)
      | (Inr line, w1) \<Rightarrow> (Inr (), w1))"

subsection \<open>Display helpers (source lines 109 to 127)\<close>

definition print_header :: "string \<Rightarrow> world \<Rightarrow> world" where
  "print_header ttl w =
     print (replicate 40 (CHR ''='') @ [CHR 0x0A])
       (print ttl (print (CHR 0x0A # replicate 40 (CHR ''='')) w))"

text \<open>The line of one task: its number in the listing, the mark, the title, the due date if any.\<close>

definition task_line :: "nat \<Rightarrow> task \<Rightarrow> string" where
  "task_line index t =
     (let status = (if is_complete t then ''[X]'' else ''[ ]'');
          due = (case due_date t of
                   None \<Rightarrow> []
                 | Some d \<Rightarrow> if d \<noteq> [] then '' (Due: '' @ d @ '')'' else [])
      in nat_repr index @ ''. '' @ status @ '' '' @ title t @ due)"

definition list_tasks :: "task list \<Rightarrow> world \<Rightarrow> world" where
  "list_tasks tasks w =
     (let w1 = print_header ''YOUR TASKS'' w in
      if tasks = [] then print ''No tasks yet. Add one from the menu!'' w1
      else foldl (\<lambda>w' (index, t). print (task_line index t) w') w1 (enumerate 1 tasks))"

subsection \<open>Menu actions (source lines 132 to 181)\<close>

text \<open>
  The list \<^verbatim>\<open>tasks\<close> is changed in place by the source; the model returns the new
  list. \<open>py_index\<close> is the position a Python index stands for in a list of the given
  length: a negative index counts from the end, and an index outside raises IndexError.
\<close>

definition py_index :: "nat \<Rightarrow> int \<Rightarrow> exn + nat" where
  "py_index len i =
     (let j = (if i < 0 then int len + i else i)
      in if 0 \<le> j \<and> j < int len then Inr (nat j) else Inl IndexError)"

definition add_task :: "task list \<Rightarrow> world \<Rightarrow> (exn + task list) \<times> world" where
  "add_task tasks w =
     (case read_non_empty ''Task title: '' (print_header ''ADD A TASK'' w) of
        (Inl e, w1) \<Rightarrow> (Inl e, w1)
      | (Inr ttl, w1) \<Rightarrow>
          (case read_optional_date ''Due date (YYYY-MM-DD) or press Enter to skip: '' w1 of
             (Inl e, w2) \<Rightarrow> (Inl e, w2)
           | (Inr due, w2) \<Rightarrow>
               (let t = \<lparr>task_id = next_task_id tasks, title = ttl, due_date = due, is_complete = False\<rparr>;
                    tasks' = tasks @ [t]
                in (Inr tasks', print ''Task added and saved!'' (save_tasks tasks' w2)))))"

definition mark_complete :: "task list \<Rightarrow> world \<Rightarrow> (exn + task list) \<times> world" where
  "mark_complete tasks w =
     (let w1 = print_header ''MARK TASK COMPLETE'' w in
      if tasks = [] then (Inr tasks, print ''No tasks to mark complete.'' w1)
      else
        (case read_int (CHR 0x0A # ''Enter the task number to mark complete: '') 1 (int (length tasks))
                (list_tasks tasks w1) of
           (Inl e, w2) \<Rightarrow> (Inl e, w2)
         | (Inr choice, w2) \<Rightarrow>
             (case py_index (length tasks) (choice - 1) of
                Inl e \<Rightarrow> (Inl e, w2)
              | Inr k \<Rightarrow>
                  (let tasks' = tasks[k := (tasks ! k)\<lparr>is_complete := True\<rparr>]
                   in (Inr tasks', print ''Task marked complete and saved!'' (save_tasks tasks' w2))))))"

definition delete_task :: "task list \<Rightarrow> world \<Rightarrow> (exn + task list) \<times> world" where
  "delete_task tasks w =
     (let w1 = print_header ''DELETE A TASK'' w in
      if tasks = [] then (Inr tasks, print ''No tasks to delete.'' w1)
      else
        (case read_int (CHR 0x0A # ''Enter the task number to delete: '') 1 (int (length tasks))
                (list_tasks tasks w1) of
           (Inl e, w2) \<Rightarrow> (Inl e, w2)
         | (Inr choice, w2) \<Rightarrow>
             (case py_index (length tasks) (choice - 1) of
                Inl e \<Rightarrow> (Inl e, w2)
              | Inr k \<Rightarrow>
                  (let deleted = tasks ! k;
                       tasks' = take k tasks @ drop (Suc k) tasks
                   in (Inr tasks', print (''Deleted: '' @ title deleted) (save_tasks tasks' w2))))))"

subsection \<open>What the helpers leave alone\<close>

text \<open>
  Printing and prompting touch neither the input still to come nor the data file, and
  no helper puts lines back on the input. Each loop has two step equations, one for
  the end of the input and one for a line read.
\<close>

lemma stdin_save_tasks [simp]: "stdin (save_tasks tasks w) = stdin w"
  by (simp add: save_tasks_def)

lemma stdin_print_header [simp]: "stdin (print_header ttl w) = stdin w"
  by (simp add: print_header_def)

lemma disk_print_header [simp]: "disk (print_header ttl w) = disk w"
  by (simp add: print_header_def)

lemma stdin_print_lines [simp]:
  "stdin (foldl (\<lambda>w' (index, t). print (task_line index t) w') w xs) = stdin w"
  by (induction xs arbitrary: w) (auto simp: case_prod_beta)

lemma disk_print_lines [simp]:
  "disk (foldl (\<lambda>w' (index, t). print (task_line index t) w') w xs) = disk w"
  by (induction xs arbitrary: w) (auto simp: case_prod_beta)

lemma stdin_list_tasks [simp]: "stdin (list_tasks tasks w) = stdin w"
  by (simp add: list_tasks_def Let_def)

lemma disk_list_tasks [simp]: "disk (list_tasks tasks w) = disk w"
  by (simp add: list_tasks_def Let_def)

lemma input_disk: "input prompt w = (r, w1) \<Longrightarrow> disk w1 = disk w"
  by (auto simp: input_def split: list.splits)

lemma input_stdin_le: "input prompt w = (r, w1) \<Longrightarrow> length (stdin w1) \<le> length (stdin w)"
  by (auto simp: input_def split: list.splits)


lemma read_int_eof:
  "stdin w = [] \<Longrightarrow> read_int prompt lo hi w = (Inl EOFError, w\<lparr>stdout := stdout w @ [Prompt prompt]\<rparr>)"
  by (subst read_int.simps) (simp add: input_def)

lemma read_int_line:
  "stdin w = line # rest \<Longrightarrow>
   read_int prompt lo hi w =
     (let w1 = w\<lparr>stdin := rest, stdout := stdout w @ [Prompt prompt]\<rparr> in
      if isdigit (strip line) then
        (case py_int (strip line) of
           Inl e \<Rightarrow> (Inl e, w1)
         | Inr v \<Rightarrow> if lo \<le> v \<and> v \<le> hi then (Inr v, w1)
                    else read_int prompt lo hi (print (range_message lo hi) w1))
      else read_int prompt lo hi (print (range_message lo hi) w1))"
  by (subst read_int.simps) (simp add: input_def Let_def)

lemma read_int_post:
  "read_int prompt lo hi w = (r, w') \<Longrightarrow>
     disk w' = disk w \<and> length (stdin w') \<le> length (stdin w) \<and>
     (\<forall>v. r = Inr v \<longrightarrow> lo \<le> v \<and> v \<le> hi \<and> length (stdin w') < length (stdin w))"
proof (induction ls \<equiv> "stdin w" arbitrary: w)
  case Nil
  from Nil.prems Nil.hyps [symmetric] show ?case by (auto simp: read_int_eof)
next
  case (Cons line rest)
  let ?w1 = "w\<lparr>stdin := rest, stdout := stdout w @ [Prompt prompt]\<rparr>"
  have ih: "read_int prompt lo hi (print (range_message lo hi) ?w1) = (r, w') \<Longrightarrow>
     disk w' = disk w \<and> length (stdin w') \<le> length rest \<and>
     (\<forall>v. r = Inr v \<longrightarrow> lo \<le> v \<and> v \<le> hi \<and> length (stdin w') < length rest)"
    using Cons.hyps(1) [of "print (range_message lo hi) ?w1"] by simp
  from Cons.prems Cons.hyps(2) [symmetric] ih show ?case
    by (auto simp: read_int_line Let_def split: if_splits sum.splits)
qed

lemma read_non_empty_eof:
  "stdin w = [] \<Longrightarrow> read_non_empty prompt w = (Inl EOFError, w\<lparr>stdout := stdout w @ [Prompt prompt]\<rparr>)"
  by (subst read_non_empty.simps) (simp add: input_def)

lemma read_non_empty_line:
  "stdin w = line # rest \<Longrightarrow>
   read_non_empty prompt w =
     (let w1 = w\<lparr>stdin := rest, stdout := stdout w @ [Prompt prompt]\<rparr> in
      if strip line \<noteq> [] then (Inr (strip line), w1)
      else read_non_empty prompt (print ''This field cannot be blank. Try again.'' w1))"
  by (subst read_non_empty.simps) (simp add: input_def Let_def)

lemma read_non_empty_post:
  "read_non_empty prompt w = (r, w') \<Longrightarrow>
     disk w' = disk w \<and> length (stdin w') \<le> length (stdin w) \<and> (\<forall>t. r = Inr t \<longrightarrow> t \<noteq> [])"
proof (induction ls \<equiv> "stdin w" arbitrary: w)
  case Nil
  from Nil.prems Nil.hyps [symmetric] show ?case by (auto simp: read_non_empty_eof)
next
  case (Cons line rest)
  let ?w1 = "w\<lparr>stdin := rest, stdout := stdout w @ [Prompt prompt]\<rparr>"
  have ih: "read_non_empty prompt (print ''This field cannot be blank. Try again.'' ?w1) = (r, w') \<Longrightarrow>
     disk w' = disk w \<and> length (stdin w') \<le> length rest \<and> (\<forall>t. r = Inr t \<longrightarrow> t \<noteq> [])"
    using Cons.hyps(1) [of "print ''This field cannot be blank. Try again.'' ?w1"] by simp
  from Cons.prems Cons.hyps(2) [symmetric] ih show ?case
    by (auto simp: read_non_empty_line Let_def split: if_splits)
qed

lemma strptime_error: "strptime s = Inl e \<Longrightarrow> e = ValueError"
  by (auto simp: strptime_def Let_def split: list.splits if_splits option.splits prod.splits)

lemma read_optional_date_eof:
  "stdin w = [] \<Longrightarrow>
   read_optional_date prompt w = (Inl EOFError, w\<lparr>stdout := stdout w @ [Prompt prompt]\<rparr>)"
  by (subst read_optional_date.simps) (simp add: input_def)

lemma read_optional_date_line:
  "stdin w = line # rest \<Longrightarrow>
   read_optional_date prompt w =
     (let w1 = w\<lparr>stdin := rest, stdout := stdout w @ [Prompt prompt]\<rparr> in
      if strip line = [] then (Inr None, w1)
      else (case strptime (strip line) of
              Inr dt \<Rightarrow> (Inr (Some (strftime dt)), w1)
            | Inl e \<Rightarrow> read_optional_date prompt (print date_message w1)))"
  by (subst read_optional_date.simps)
     (auto simp: input_def Let_def split: sum.splits dest: strptime_error)

lemma read_optional_date_post:
  "read_optional_date prompt w = (r, w') \<Longrightarrow>
     disk w' = disk w \<and> length (stdin w') \<le> length (stdin w)"
proof (induction ls \<equiv> "stdin w" arbitrary: w)
  case Nil
  from Nil.prems Nil.hyps [symmetric] show ?case by (auto simp: read_optional_date_eof)
next
  case (Cons line rest)
  let ?w1 = "w\<lparr>stdin := rest, stdout := stdout w @ [Prompt prompt]\<rparr>"
  have ih: "read_optional_date prompt (print date_message ?w1) = (r, w') \<Longrightarrow>
     disk w' = disk w \<and> length (stdin w') \<le> length rest"
    using Cons.hyps(1) [of "print date_message ?w1"] by simp
  from Cons.prems Cons.hyps(2) [symmetric] ih show ?case
    by (auto simp: read_optional_date_line Let_def split: if_splits sum.splits)
qed

lemma pause_post:
  "pause w = (r, w') \<Longrightarrow> disk w' = disk w \<and> length (stdin w') \<le> length (stdin w)"
  by (auto simp: pause_def input_def split: list.splits)

lemma add_task_stdin:
  "add_task tasks w = (r, w') \<Longrightarrow> length (stdin w') \<le> length (stdin w)"
  by (auto simp: add_task_def Let_def split: prod.splits sum.splits
           dest!: read_non_empty_post read_optional_date_post)

lemma mark_complete_stdin:
  "mark_complete tasks w = (r, w') \<Longrightarrow> length (stdin w') \<le> length (stdin w)"
  by (auto simp: mark_complete_def Let_def split: prod.splits sum.splits if_splits
           dest!: read_int_post)

lemma delete_task_stdin:
  "delete_task tasks w = (r, w') \<Longrightarrow> length (stdin w') \<le> length (stdin w)"
  by (auto simp: delete_task_def Let_def split: prod.splits sum.splits if_splits
           dest!: read_int_post)

subsection \<open>Main program (source lines 186 to 226)\<close>

text \<open>
  One round of the \<^verbatim>\<open>while True\<close> loop of \<^verbatim>\<open>main\<close>: the menu, the choice,
  the action and the pause. The result is the list after the round and whether the loop
  goes on (\<^verbatim>\<open>break\<close> after choice 6 ends it).
\<close>

definition print_menu :: "world \<Rightarrow> world" where
  "print_menu w =
     print ''6) Exit'' (print ''5) Save'' (print ''4) Delete a task''
       (print ''3) Mark task as complete'' (print ''2) Add a task'' (print ''1) List tasks''
         (print_header ''TASK TRACKER (PYTHON)'' w))))))"

definition pause_after :: "(exn + task list) \<times> world \<Rightarrow> (exn + task list \<times> bool) \<times> world" where
  "pause_after res =
     (case res of
        (Inl e, w) \<Rightarrow> (Inl e, w)
      | (Inr tasks, w) \<Rightarrow>
          (case pause w of
             (Inl e, w') \<Rightarrow> (Inl e, w')
           | (Inr u, w') \<Rightarrow> (Inr (tasks, True), w')))"

definition main_iteration :: "task list \<Rightarrow> world \<Rightarrow> (exn + task list \<times> bool) \<times> world" where
  "main_iteration tasks w =
     (case read_int (CHR 0x0A # ''Choose an option (1-6): '') 1 6 (print_menu w) of
        (Inl e, w1) \<Rightarrow> (Inl e, w1)
      | (Inr choice, w1) \<Rightarrow>
          if choice = 1 then pause_after (Inr tasks, list_tasks tasks w1)
          else if choice = 2 then pause_after (add_task tasks w1)
          else if choice = 3 then pause_after (mark_complete tasks w1)
          else if choice = 4 then pause_after (delete_task tasks w1)
          else if choice = 5 then pause_after (Inr tasks, print ''Saved!'' (save_tasks tasks w1))
          else if choice = 6 then (Inr (tasks, False), print ''Goodbye!'' (save_tasks tasks w1))
          else (Inr (tasks, True), w1))"

lemma stdin_print_menu [simp]: "stdin (print_menu w) = stdin w"
  by (simp add: print_menu_def)

lemma disk_print_menu [simp]: "disk (print_menu w) = disk w"
  by (simp add: print_menu_def)

lemma pause_after_stdin:
  "pause_after (r0, w0) = (r, w') \<Longrightarrow> length (stdin w') \<le> length (stdin w0)"
  by (auto simp: pause_after_def split: sum.splits prod.splits dest!: pause_post)

lemma main_iteration_shorter:
  assumes "main_iteration tasks w = (Inr (tasks', True), w')"
  shows "length (stdin w') < length (stdin w)"
proof -
  obtain x w1 where ri: "read_int (CHR 0x0A # ''Choose an option (1-6): '') 1 6 (print_menu w) = (x, w1)"
    by (cases "read_int (CHR 0x0A # ''Choose an option (1-6): '') 1 6 (print_menu w)")
  with assms obtain choice where x: "x = Inr choice"
    by (cases x) (auto simp: main_iteration_def)
  from read_int_post [OF ri] x have lt: "length (stdin w1) < length (stdin w)" by simp
  have "length (stdin w') \<le> length (stdin w1)"
  proof -
    consider "choice = 1" | "choice = 2" | "choice = 3" | "choice = 4" | "choice = 5"
      | "choice \<notin> {1, 2, 3, 4, 5}" by auto
    then show ?thesis
    proof cases
      case 1
      with assms ri x show ?thesis
        by (auto simp: main_iteration_def dest!: pause_after_stdin)
    next
      case 2
      with assms ri x obtain r2 w2 where "add_task tasks w1 = (r2, w2)" "pause_after (r2, w2) = (Inr (tasks', True), w')"
        by (cases "add_task tasks w1") (auto simp: main_iteration_def)
      then show ?thesis
        using add_task_stdin pause_after_stdin by (meson order_trans)
    next
      case 3
      with assms ri x obtain r2 w2 where "mark_complete tasks w1 = (r2, w2)" "pause_after (r2, w2) = (Inr (tasks', True), w')"
        by (cases "mark_complete tasks w1") (auto simp: main_iteration_def)
      then show ?thesis
        using mark_complete_stdin pause_after_stdin by (meson order_trans)
    next
      case 4
      with assms ri x obtain r2 w2 where "delete_task tasks w1 = (r2, w2)" "pause_after (r2, w2) = (Inr (tasks', True), w')"
        by (cases "delete_task tasks w1") (auto simp: main_iteration_def)
      then show ?thesis
        using delete_task_stdin pause_after_stdin by (meson order_trans)
    next
      case 5
      with assms ri x show ?thesis
        by (auto simp: main_iteration_def dest!: pause_after_stdin)
    next
      case 6
      with assms ri x show ?thesis
        by (auto simp: main_iteration_def split: if_splits)
    qed
  qed
  with lt show ?thesis by simp
qed

text \<open>
  The loop of \<^verbatim>\<open>main\<close>, from the list \<^verbatim>\<open>tasks\<close> that \<^verbatim>\<open>load_tasks()\<close>
  returned. It ends with the list at the time of \<^verbatim>\<open>break\<close>, or with the exception
  that ended the process.
\<close>

function main_loop :: "task list \<Rightarrow> world \<Rightarrow> (exn + task list) \<times> world" where
  "main_loop tasks w =
     (case main_iteration tasks w of
        (Inl e, w') \<Rightarrow> (Inl e, w')
      | (Inr (tasks', running), w') \<Rightarrow>
          if running then main_loop tasks' w' else (Inr tasks', w'))"
  by pat_completeness auto
termination
  by (relation "measure (\<lambda>(tasks, w). length (stdin w))")
     (auto dest: main_iteration_shorter [OF sym])

declare main_loop.simps [simp del]

subsection \<open>Decimal numerals\<close>

text \<open>
  \<^verbatim>\<open>str(n)\<close> is a string of decimal digits without blanks, and \<^verbatim>\<open>int\<close> reads
  the number back.
\<close>

declare nat_repr.simps [simp del]

lemma digit_char_props:
  "d < 10 \<Longrightarrow> isdecimal_char (digit_char d) \<and> digit_value (digit_char d) = int d \<and> \<not> isspace (digit_char d)"
  by (auto simp: isdecimal_char_def digit_char_def digit_value_def isspace_def)

lemma isdecimal_not_space: "isdecimal_char c \<Longrightarrow> \<not> isspace c"
  by (auto simp: isdecimal_char_def isspace_def)

lemma isdecimal_isdigit: "isdecimal_char c \<Longrightarrow> isdigit_char c"
  by (simp add: isdigit_char_def)

lemma nat_repr_not_Nil: "nat_repr n \<noteq> []"
  by (subst nat_repr.simps) simp

lemma nat_repr_decimal: "list_all isdecimal_char (nat_repr n)"
proof (induction n rule: nat_repr.induct)
  case (1 n)
  show ?case
  proof (cases "n < 10")
    case True
    then show ?thesis by (subst nat_repr.simps) (simp add: digit_char_props)
  next
    case False
    with 1 show ?thesis by (subst nat_repr.simps) (simp add: digit_char_props)
  qed
qed

lemma decimal_value_snoc: "decimal_value (xs @ [c]) = 10 * decimal_value xs + digit_value c"
  by (simp add: decimal_value_def)

lemma decimal_value_nat_repr: "decimal_value (nat_repr n) = int n"
proof (induction n rule: nat_repr.induct)
  case (1 n)
  show ?case
  proof (cases "n < 10")
    case True
    then show ?thesis by (subst nat_repr.simps) (simp add: digit_char_props decimal_value_def)
  next
    case False
    with 1 have "decimal_value (nat_repr (n div 10)) = int (n div 10)" by simp
    moreover have "int n = 10 * int (n div 10) + int (n mod 10)"
      by presburger
    ultimately show ?thesis using False
      by (subst nat_repr.simps) (simp add: decimal_value_snoc digit_char_props)
  qed
qed

lemma strip_no_space:
  assumes "list_all (\<lambda>c. \<not> isspace c) s"
  shows "strip s = s"
proof -
  have a: "dropWhile isspace xs = xs" if "list_all (\<lambda>c. \<not> isspace c) xs" for xs
    using that by (cases xs) auto
  from assms have "list_all (\<lambda>c. \<not> isspace c) (rev s)" by (simp add: list_all_iff)
  with assms show ?thesis by (simp add: strip_def a)
qed

lemma strip_nat_repr: "strip (nat_repr n) = nat_repr n"
  using nat_repr_decimal [of n]
  by (intro strip_no_space) (auto simp: list_all_iff dest: isdecimal_not_space)

lemma isdigit_nat_repr: "isdigit (nat_repr n)"
  using nat_repr_decimal [of n]
  by (auto simp: isdigit_def nat_repr_not_Nil list_all_iff dest: isdecimal_isdigit)

lemma py_int_nat_repr: "py_int (nat_repr n) = Inr (int n)"
  by (simp add: py_int_def nat_repr_not_Nil nat_repr_decimal decimal_value_nat_repr)

text \<open>Typing the number \<open>i\<close> within the bounds makes \<open>read_int\<close> return \<open>i\<close>.\<close>

lemma read_int_numeral:
  assumes "stdin w = nat_repr n # rest" and "lo \<le> int n" and "int n \<le> hi"
  shows "read_int prompt lo hi w = (Inr (int n), w\<lparr>stdin := rest, stdout := stdout w @ [Prompt prompt]\<rparr>)"
  using assms
  by (simp add: read_int_line strip_nat_repr isdigit_nat_repr py_int_nat_repr)

subsection \<open>Indices, and what an action does to the list\<close>

lemma py_index_valid:
  "1 \<le> i \<Longrightarrow> i \<le> int n \<Longrightarrow> py_index n (i - 1) = Inr (nat (i - 1))"
  by (simp add: py_index_def Let_def)

lemma py_index_range: "py_index n j = Inr k \<Longrightarrow> k < n"
  by (auto simp: py_index_def Let_def split: if_splits)

lemma add_task_result:
  "add_task tasks w = (Inr tasks', w') \<Longrightarrow>
   \<exists>ttl due. ttl \<noteq> [] \<and>
     tasks' = tasks @ [\<lparr>task_id = next_task_id tasks, title = ttl, due_date = due, is_complete = False\<rparr>]"
  by (auto simp: add_task_def Let_def split: prod.splits sum.splits dest!: read_non_empty_post)

lemma mark_complete_result:
  "mark_complete tasks w = (Inr tasks', w') \<Longrightarrow>
   tasks' = tasks \<or> (\<exists>k<length tasks. tasks' = tasks[k := (tasks ! k)\<lparr>is_complete := True\<rparr>])"
  by (auto simp: mark_complete_def Let_def split: prod.splits sum.splits if_splits dest: py_index_range)

lemma delete_task_result:
  "delete_task tasks w = (Inr tasks', w') \<Longrightarrow>
   tasks' = tasks \<or> (\<exists>k<length tasks. tasks' = take k tasks @ drop (Suc k) tasks)"
  by (auto simp: delete_task_def Let_def split: prod.splits sum.splits if_splits dest: py_index_range)

lemma next_task_id_greater: "t \<in> set tasks \<Longrightarrow> task_id t < next_task_id tasks"
proof -
  assume t: "t \<in> set tasks"
  then have "task_id t \<le> Max (set (map task_id tasks))" by (intro Max_ge) auto
  with t show ?thesis by (auto simp: next_task_id_def)
qed

lemma map_task_id_update:
  "k < length tasks \<Longrightarrow> map task_id (tasks[k := (tasks ! k)\<lparr>is_complete := True\<rparr>]) = map task_id tasks"
  by (simp add: map_update list_update_same_conv)

lemma nat_repr_digit: "n < 10 \<Longrightarrow> nat_repr n = [digit_char n]"
  by (subst nat_repr.simps) simp

lemma digit_chars:
  "digit_char 0 = CHR ''0''" "digit_char 1 = CHR ''1''" "digit_char 2 = CHR ''2''"
  "digit_char 3 = CHR ''3''" "digit_char 4 = CHR ''4''" "digit_char 5 = CHR ''5''"
  "digit_char 6 = CHR ''6''" "digit_char 7 = CHR ''7''" "digit_char 8 = CHR ''8''"
  "digit_char 9 = CHR ''9''" "digit_char (Suc 0) = CHR ''1''"
  by code_simp+

subsection \<open>Sequences of actions\<close>

text \<open>
  The lists that can arise from the empty list: by \<^verbatim>\<open>add_task\<close> alone, and by
  \<^verbatim>\<open>add_task\<close>, \<^verbatim>\<open>mark_complete\<close> and \<^verbatim>\<open>delete_task\<close> in any order, each
  action run in any world and returning normally.
\<close>

inductive adds_only :: "task list \<Rightarrow> bool" where
  empty: "adds_only []"
| add: "adds_only tasks \<Longrightarrow> add_task tasks w = (Inr tasks', w') \<Longrightarrow> adds_only tasks'"

inductive reachable :: "task list \<Rightarrow> bool" where
  start: "reachable []"
| added: "reachable tasks \<Longrightarrow> add_task tasks w = (Inr tasks', w') \<Longrightarrow> reachable tasks'"
| completed: "reachable tasks \<Longrightarrow> mark_complete tasks w = (Inr tasks', w') \<Longrightarrow> reachable tasks'"
| deleted: "reachable tasks \<Longrightarrow> delete_task tasks w = (Inr tasks', w') \<Longrightarrow> reachable tasks'"

text \<open>The equations that evaluate a run of the program on a given input.\<close>

lemmas run_simps =
  main_loop.simps main_iteration_def pause_after_def pause_def input_def print_menu_def
  print_header_def print_def read_int_line read_non_empty_line read_optional_date_line
  strip_def isspace_def isdigit_def isdigit_char_def isdecimal_char_def py_int_def
  decimal_value_def digit_value_def add_task_def delete_task_def mark_complete_def
  list_tasks_def save_tasks_def next_task_id_def py_index_def Let_def enumerate_eq_zip

lemma Max_first_ints: "0 < n \<Longrightarrow> Max (set (map int [1..<Suc n])) = int n"
  by (rule Max_eqI) auto

lemma adds_only_ids: "adds_only tasks \<Longrightarrow> map task_id tasks = map int [1..<Suc (length tasks)]"
proof (induction rule: adds_only.induct)
  case empty
  show ?case by simp
next
  case (add tasks w tasks' w')
  from add_task_result [OF add.hyps(2)] obtain t
    where t: "tasks' = tasks @ [t]" "task_id t = next_task_id tasks" by auto
  have "next_task_id tasks = int (Suc (length tasks))"
  proof (cases "tasks = []")
    case True
    then show ?thesis by (simp add: next_task_id_def)
  next
    case False
    then have "0 < length tasks" by simp
    from Max_first_ints [OF this] False show ?thesis
      by (simp add: next_task_id_def add.IH)
  qed
  with t add.IH show ?case by simp
qed

lemma reachable_distinct: "reachable tasks \<Longrightarrow> distinct (map task_id tasks)"
proof (induction rule: reachable.induct)
  case start
  show ?case by simp
next
  case (added tasks w tasks' w')
  from add_task_result [OF added.hyps(2)] obtain t
    where t: "tasks' = tasks @ [t]" "task_id t = next_task_id tasks" by auto
  have "task_id t \<notin> task_id ` set tasks"
    using next_task_id_greater t(2) by fastforce
  with t added.IH show ?case by simp
next
  case (completed tasks w tasks' w')
  from mark_complete_result [OF completed.hyps(2)] completed.IH show ?case
    by (auto simp: map_task_id_update)
next
  case (deleted tasks w tasks' w')
  have "distinct (take k (map task_id tasks) @ drop (Suc k) (map task_id tasks))" for k
    using deleted.IH by (simp add: set_take_disj_set_drop_if_distinct)
  with delete_task_result [OF deleted.hyps(2)] deleted.IH show ?case
    by (auto simp: take_map drop_map)
qed

subsection \<open>Dates read from the terminal\<close>





subsection \<open>Reading back what was written\<close>

text \<open>
  The decoder reads back what the encoder wrote for a list of tasks: first strings
  (every character, escaped or not, comes back as the code point it was), then
  integers, then the dict of one task, then the list.
\<close>

lemma hex_value_hex_char_all: "\<forall>d\<in>set [0..<16]. hex_value (hex_char d) = Some d"
  by code_simp

lemma hex_value_hex_char: "d < 16 \<Longrightarrow> hex_value (hex_char d) = Some d"
  using hex_value_hex_char_all by simp

lemma hex4_small: "n < 256 \<Longrightarrow> hex4 n = [hex_char 0, hex_char 0, hex_char (n div 16), hex_char (n mod 16)]"
  by (simp add: hex4_def)

lemma decode_hex4: "n < 256 \<Longrightarrow> decode_uXXXX (hex4 n @ r) = Some (n, r)"
proof -
  assume n: "n < 256"
  then have "n div 16 < 16" by simp
  moreover have "16 * (n div 16) + n mod 16 = n" by simp
  ultimately show ?thesis using n
    by (simp add: hex4_small hex_value_hex_char)
qed

lemma of_char_lt_256: "(of_char c :: nat) < 256"
  by simp

lemma scan_short_escape:
  "backslash_escape e = Some n \<Longrightarrow> e \<noteq> CHR ''u'' \<Longrightarrow>
   scanstring (CHR 0x5C # e # r) = cons_char n (scanstring r)"
  by simp

lemma scan_hex_escape:
  "n < 256 \<Longrightarrow> scanstring (CHR 0x5C # CHR ''u'' # hex4 n @ r) = cons_char n (scanstring r)"
  by (simp add: decode_hex4)

lemma scan_plain:
  "c \<noteq> CHR 0x22 \<Longrightarrow> c \<noteq> CHR 0x5C \<Longrightarrow> 0x20 \<le> (of_char c :: nat) \<Longrightarrow>
   scanstring (c # r) = cons_char (of_char c) (scanstring r)"
  by simp

lemma scan_encode_char:
  "scanstring (encode_char (of_char c) @ r) = cons_char (of_char c) (scanstring r)"
proof -
  define n :: nat where "n = of_char c"
  have lt: "n < 256" by (simp add: n_def)
  have c: "char_of n = c" by (simp add: n_def)
  consider "n = 0x22" | "n = 0x5C" | "n = 0x0A" | "n = 0x0D" | "n = 0x09" | "n = 0x08" | "n = 0x0C"
    | "n \<notin> {0x22, 0x5C, 0x0A, 0x0D, 0x09, 0x08, 0x0C}" "0x20 \<le> n" "n \<le> 0x7E"
    | "n \<notin> {0x22, 0x5C, 0x0A, 0x0D, 0x09, 0x08, 0x0C}" "\<not> (0x20 \<le> n \<and> n \<le> 0x7E)"
    by blast
  then have "scanstring (encode_char n @ r) = cons_char n (scanstring r)"
  proof cases
    case 1 then show ?thesis by (simp add: encode_char_def backslash_escape_def)
  next
    case 2 then show ?thesis by (simp add: encode_char_def backslash_escape_def)
  next
    case 3 then show ?thesis by (simp add: encode_char_def backslash_escape_def)
  next
    case 4 then show ?thesis by (simp add: encode_char_def backslash_escape_def)
  next
    case 5 then show ?thesis by (simp add: encode_char_def backslash_escape_def)
  next
    case 6 then show ?thesis by (simp add: encode_char_def backslash_escape_def)
  next
    case 7 then show ?thesis by (simp add: encode_char_def backslash_escape_def)
  next
    case 8
    have "c \<noteq> CHR 0x22" "c \<noteq> CHR 0x5C" using 8(1) by (auto simp: n_def)
    moreover have "encode_char n = [c]" using 8 c by (simp add: encode_char_def)
    ultimately show ?thesis using 8(2) scan_plain [of c r] by (simp add: n_def)
  next
    case 9
    then have "encode_char n = CHR 0x5C # CHR ''u'' # hex4 n" using lt by (simp add: encode_char_def)
    then show ?thesis using scan_hex_escape [OF lt] by simp
  qed
  then show ?thesis by (simp add: n_def)
qed

lemma scanstring_encoded:
  "scanstring (concat (map encode_char (py_str s)) @ CHR 0x22 # r) = Some (py_str s, r)"
  by (induction s) (simp_all add: py_str_def scan_encode_char cons_char_def del: scanstring.simps, simp)

lemma scan_once_string:
  "scan_once (Suc n) (encode_basestring_ascii (py_str s) @ r) = Some (JStr (py_str s), r)"
  by (simp add: encode_basestring_ascii_def scanstring_encoded)

lemma digit_char_zero: "m < 10 \<Longrightarrow> digit_char m = CHR ''0'' \<Longrightarrow> m = 0"
proof -
  assume "m < 10" "digit_char m = CHR ''0''"
  then have "(of_char (digit_char m) :: nat) = 48" by simp
  with \<open>m < 10\<close> show ?thesis by (simp add: digit_char_def)
qed

lemma nat_repr_zero_head: "hd (nat_repr m) = CHR ''0'' \<Longrightarrow> m = 0"
proof (induction m rule: nat_repr.induct)
  case (1 n)
  show ?case
  proof (cases "n < 10")
    case True
    with "1.prems" show ?thesis by (simp add: nat_repr_digit digit_char_zero)
  next
    case False
    then have "nat_repr n = nat_repr (n div 10) @ [digit_char (n mod 10)]"
      by (subst nat_repr.simps) simp
    with "1.prems" have "hd (nat_repr (n div 10)) = CHR ''0''"
      by (simp add: nat_repr_not_Nil)
    with "1.IH" False have "n div 10 = 0" by simp
    with False show ?thesis by simp
  qed
qed

lemma take_drop_digits:
  assumes "list_all isdecimal_char ds" and "\<not> isdecimal_char y"
  shows "takeWhile isdecimal_char (ds @ y # r) = ds" and "dropWhile isdecimal_char (ds @ y # r) = y # r"
  using assms by (simp_all add: list_all_iff)

lemma number_tail_comma: "number_tail (CHR '','' # r) = ([], CHR '','' # r)"
  by (simp add: number_tail_def split: list.splits)

lemma comma_not_decimal: "\<not> isdecimal_char (CHR '','')"
  by (simp add: isdecimal_char_def)

lemma match_nat_repr:
  "match_number (nat_repr m @ CHR '','' # r) = Some (JInt (int m), CHR '','' # r)"
proof -
  obtain d ds where dd: "nat_repr m = d # ds" using nat_repr_not_Nil [of m] by (cases "nat_repr m") auto
  with nat_repr_decimal [of m] have dec: "isdecimal_char d" "list_all isdecimal_char ds" by simp_all
  then have nm: "d \<noteq> CHR ''-''" by (auto simp: isdecimal_char_def)
  have val: "decimal_value (d # ds) = int m" using decimal_value_nat_repr [of m] dd by simp
  show ?thesis
  proof (cases "d = CHR ''0''")
    case True
    with dd nat_repr_zero_head [of m] have m0: "m = 0" by simp
    then have "nat_repr m = ''0''" by (simp add: nat_repr_digit digit_chars)
    with m0 show ?thesis
      by (simp add: match_number_def number_tail_comma isdecimal_char_def decimal_value_def digit_value_def)
  next
    case False
    with dd dec nm val show ?thesis
      by (simp add: match_number_def number_tail_comma take_drop_digits [OF dec(2) comma_not_decimal])
  qed
qed

lemma match_int_repr:
  "match_number (int_repr i @ CHR '','' # r) = Some (JInt i, CHR '','' # r)"
proof (cases "i < 0")
  case False
  then show ?thesis using match_nat_repr [of "nat i" r] by (simp add: int_repr_def)
next
  case True
  obtain d ds where dd: "nat_repr (nat (- i)) = d # ds"
    using nat_repr_not_Nil [of "nat (- i)"] by (cases "nat_repr (nat (- i))") auto
  with nat_repr_decimal [of "nat (- i)"] have dec: "isdecimal_char d" "list_all isdecimal_char ds" by simp_all
  have val: "decimal_value (d # ds) = int (nat (- i))" using decimal_value_nat_repr [of "nat (- i)"] dd by simp
  have nz: "d \<noteq> CHR ''0''"
  proof
    assume "d = CHR ''0''"
    with dd nat_repr_zero_head [of "nat (- i)"] have "nat (- i) = 0" by simp
    with True show False by simp
  qed
  from True dd dec nz val show ?thesis
    by (simp add: int_repr_def match_number_def number_tail_comma
        take_drop_digits [OF dec(2) comma_not_decimal])
qed

lemma int_repr_head:
  "\<exists>c s. int_repr i = c # s \<and> (isdecimal_char c \<or> c = CHR ''-'')"
proof -
  obtain d ds where "nat_repr (nat \<bar>i\<bar>) = d # ds" "isdecimal_char d"
    using nat_repr_not_Nil [of "nat \<bar>i\<bar>"] nat_repr_decimal [of "nat \<bar>i\<bar>"]
    by (cases "nat_repr (nat \<bar>i\<bar>)") auto
  then show ?thesis by (cases "i < 0") (auto simp: int_repr_def)
qed

lemma scan_once_int:
  "scan_once (Suc n) (int_repr i @ CHR '','' # r) = Some (JInt i, CHR '','' # r)"
proof -
  from int_repr_head obtain c s where cs: "int_repr i = c # s" "isdecimal_char c \<or> c = CHR ''-''"
    by blast
  then have c: "c \<noteq> CHR 0x22" "c \<noteq> CHR ''{''" "c \<noteq> CHR ''[''" "c \<noteq> CHR ''n''" "c \<noteq> CHR ''t''" "c \<noteq> CHR ''f''"
    by (auto simp: isdecimal_char_def)
  from match_int_repr [of i r] cs have "match_number (c # s @ CHR '','' # r) = Some (JInt i, CHR '','' # r)"
    by simp
  with c cs show ?thesis by simp
qed

lemma scan_once_null: "scan_once (Suc n) (''null'' @ r) = Some (JNull, r)"
  by simp

lemma scan_once_bool:
  "scan_once (Suc n) ((if b then ''true'' else ''false'') @ r) = Some (JBool b, r)"
  by simp

lemma skip_ws_cons: "\<not> json_ws c \<Longrightarrow> skip_ws (c # r) = c # r"
  by (simp add: skip_ws_def)

lemma skip_ws_indent: "\<not> json_ws c \<Longrightarrow> skip_ws (newline_indent l @ c # r) = c # r"
proof -
  assume c: "\<not> json_ws c"
  have "dropWhile json_ws (replicate k (CHR '' '') @ c # r) = c # r" for k
    using c by (induction k) (simp_all add: json_ws_def)
  then show ?thesis by (simp add: skip_ws_def newline_indent_def json_ws_def)
qed

lemma skip_ws_value:
  "venc \<noteq> [] \<Longrightarrow> \<not> json_ws (hd venc) \<Longrightarrow> skip_ws (CHR '' '' # venc @ r) = venc @ r"
  by (cases venc) (simp_all add: skip_ws_def json_ws_def)

lemma not_ws: "\<not> json_ws (CHR 0x22)" "\<not> json_ws (CHR '':'')" "\<not> json_ws (CHR '','')"
  "\<not> json_ws (CHR ''}'')" "\<not> json_ws (CHR '']'')" "\<not> json_ws (CHR ''{'')"
  by (simp_all add: json_ws_def)

lemma parse_object_more:
  assumes v: "venc \<noteq> []" "\<not> json_ws (hd venc)"
    and val: "scan_once n (venc @ CHR '','' # newline_indent l @ CHR 0x22 # nxt) =
              Some (v, CHR '','' # newline_indent l @ CHR 0x22 # nxt)"
  shows "parse_object (Suc n)
           (encode_basestring_ascii (py_str k) @ '': '' @ venc @ CHR '','' # newline_indent l @ CHR 0x22 # nxt) =
         map_option (\<lambda>(ps, t). ((py_str k, v) # ps, t)) (parse_object n (CHR 0x22 # nxt))"
  using v val
  by (simp add: encode_basestring_ascii_def scanstring_encoded skip_ws_cons skip_ws_indent
      skip_ws_value not_ws del: scan_once.simps)

lemma parse_object_last:
  assumes v: "venc \<noteq> []" "\<not> json_ws (hd venc)"
    and val: "scan_once n (venc @ newline_indent l @ CHR ''}'' # r) = Some (v, newline_indent l @ CHR ''}'' # r)"
  shows "parse_object (Suc n)
           (encode_basestring_ascii (py_str k) @ '': '' @ venc @ newline_indent l @ CHR ''}'' # r) =
         Some ([(py_str k, v)], r)"
  using v val
  by (simp add: encode_basestring_ascii_def scanstring_encoded skip_ws_cons skip_ws_indent
      skip_ws_value not_ws del: scan_once.simps)

lemma parse_object_next:
  assumes v: "venc \<noteq> []" "\<not> json_ws (hd venc)"
    and nx: "nxt \<noteq> []" "hd nxt = CHR 0x22"
    and val: "scan_once n (venc @ CHR '','' # newline_indent l @ nxt) =
              Some (v, CHR '','' # newline_indent l @ nxt)"
  shows "parse_object (Suc n)
           (encode_basestring_ascii (py_str k) @ '': '' @ venc @ CHR '','' # newline_indent l @ nxt) =
         map_option (\<lambda>(ps, t). ((py_str k, v) # ps, t)) (parse_object n nxt)"
proof -
  from nx obtain rest where "nxt = CHR 0x22 # rest" by (cases nxt) auto
  with parse_object_more [OF v, of n l rest v k] val show ?thesis by simp
qed

lemma scan_once_object:
  assumes "body \<noteq> []" "hd body = CHR 0x22"
  shows "scan_once (Suc n) (CHR ''{'' # newline_indent l @ body) =
         map_option (\<lambda>(ps, r'). (JObj (dict_of_pairs ps), r')) (parse_object n body)"
proof -
  from assms obtain rest where "body = CHR 0x22 # rest" by (cases body) auto
  then show ?thesis by (simp add: skip_ws_indent not_ws del: parse_object.simps)
qed

lemma scan_once_array:
  assumes "body \<noteq> []" "hd body = CHR ''{''"
  shows "scan_once (Suc n) (CHR ''['' # newline_indent l @ body) =
         map_option (\<lambda>(vs, r'). (JArr vs, r')) (parse_array n body)"
proof -
  from assms obtain rest where "body = CHR ''{'' # rest" by (cases body) auto
  then show ?thesis by (simp add: skip_ws_indent not_ws del: parse_array.simps)
qed

lemma key_head:
  "encode_basestring_ascii x @ y \<noteq> []" "hd (encode_basestring_ascii x @ y) = CHR 0x22"
  "\<not> json_ws (hd (encode_basestring_ascii x @ y))"
  by (simp_all add: encode_basestring_ascii_def json_ws_def)

lemma string_head:
  "encode_basestring_ascii x \<noteq> []" "\<not> json_ws (hd (encode_basestring_ascii x))"
  by (simp_all add: encode_basestring_ascii_def json_ws_def)

lemma int_repr_head_not_ws: "int_repr i \<noteq> []" "\<not> json_ws (hd (int_repr i))"
  using int_repr_head [of i] by (auto simp: json_ws_def isdecimal_char_def)

lemma task_pairs:
  "dict_of_pairs [(py_str ''id'', a), (py_str ''title'', b), (py_str ''due_date'', c), (py_str ''is_complete'', d)] =
   [(py_str ''id'', a), (py_str ''title'', b), (py_str ''due_date'', c), (py_str ''is_complete'', d)]"
  by (simp add: dict_of_pairs_def py_str_def)

lemma iterencode_task:
  "iterencode 1 (json_of_task t) =
     CHR ''{'' # newline_indent 2 @
       encode_basestring_ascii (py_str ''id'') @ '': '' @ int_repr (task_id t) @
       CHR '','' # newline_indent 2 @
       encode_basestring_ascii (py_str ''title'') @ '': '' @ encode_basestring_ascii (py_str (title t)) @
       CHR '','' # newline_indent 2 @
       encode_basestring_ascii (py_str ''due_date'') @ '': '' @
         (case due_date t of None \<Rightarrow> ''null'' | Some d \<Rightarrow> encode_basestring_ascii (py_str d)) @
       CHR '','' # newline_indent 2 @
       encode_basestring_ascii (py_str ''is_complete'') @ '': '' @
         (if is_complete t then ''true'' else ''false'') @
       newline_indent 1 @ ''}''"
  by (cases "due_date t") (simp_all add: json_of_task_def numeral_2_eq_2)

lemma scan_task:
  "scan_once (Suc (Suc (Suc (Suc (Suc (Suc n)))))) (iterencode 1 (json_of_task t) @ r) =
   Some (json_of_task t, r)"
proof -
  let ?k1 = "encode_basestring_ascii (py_str ''id'')"
  let ?k2 = "encode_basestring_ascii (py_str ''title'')"
  let ?k3 = "encode_basestring_ascii (py_str ''due_date'')"
  let ?k4 = "encode_basestring_ascii (py_str ''is_complete'')"
  let ?v2 = "encode_basestring_ascii (py_str (title t))"
  let ?v3 = "case due_date t of None \<Rightarrow> ''null'' | Some d \<Rightarrow> encode_basestring_ascii (py_str d)"
  let ?j3 = "case due_date t of None \<Rightarrow> JNull | Some d \<Rightarrow> JStr (py_str d)"
  let ?v4 = "if is_complete t then ''true'' else ''false''"
  let ?p4 = "?k4 @ '': '' @ ?v4 @ newline_indent 1 @ CHR ''}'' # r"
  let ?p3 = "?k3 @ '': '' @ ?v3 @ CHR '','' # newline_indent 2 @ ?p4"
  let ?p2 = "?k2 @ '': '' @ ?v2 @ CHR '','' # newline_indent 2 @ ?p3"
  let ?p1 = "?k1 @ '': '' @ int_repr (task_id t) @ CHR '','' # newline_indent 2 @ ?p2"
  have v4: "?v4 \<noteq> []" "\<not> json_ws (hd ?v4)" by (simp_all add: json_ws_def)
  have v3: "?v3 \<noteq> []" "\<not> json_ws (hd ?v3)"
    by (cases "due_date t"; simp add: json_ws_def encode_basestring_ascii_def)+
  have s3: "scan_once (Suc m) (?v3 @ x) = Some (?j3, x)" for m x
    by (cases "due_date t") (simp_all add: scan_once_string del: scan_once.simps, simp)
  have l4: "parse_object (Suc (Suc n)) ?p4 = Some ([(py_str ''is_complete'', JBool (is_complete t))], r)"
    by (rule parse_object_last [OF v4 scan_once_bool])
  have h4: "?p4 \<noteq> []" "hd ?p4 = CHR 0x22" by (rule key_head)+
  have h3: "?p3 \<noteq> []" "hd ?p3 = CHR 0x22" by (rule key_head)+
  have h2: "?p2 \<noteq> []" "hd ?p2 = CHR 0x22" by (rule key_head)+
  have l3: "parse_object (Suc (Suc (Suc n))) ?p3 =
      Some ([(py_str ''due_date'', ?j3), (py_str ''is_complete'', JBool (is_complete t))], r)"
    using parse_object_next [where venc = "?v3" and nxt = "?p4" and n = "Suc (Suc n)" and l = 2
        and v = "?j3" and k = "''due_date''", OF v3 h4 s3] l4
    by (simp del: parse_object.simps scan_once.simps)
  have l2: "parse_object (Suc (Suc (Suc (Suc n)))) ?p2 =
      Some ([(py_str ''title'', JStr (py_str (title t))), (py_str ''due_date'', ?j3),
             (py_str ''is_complete'', JBool (is_complete t))], r)"
    using parse_object_next [where venc = "?v2" and nxt = "?p3" and n = "Suc (Suc (Suc n))" and l = 2
        and v = "JStr (py_str (title t))" and k = "''title''",
        OF string_head h3 scan_once_string] l3
    by (simp del: parse_object.simps scan_once.simps)
  have l1: "parse_object (Suc (Suc (Suc (Suc (Suc n))))) ?p1 =
      Some ([(py_str ''id'', JInt (task_id t)), (py_str ''title'', JStr (py_str (title t))),
             (py_str ''due_date'', ?j3), (py_str ''is_complete'', JBool (is_complete t))], r)"
    using parse_object_next [where venc = "int_repr (task_id t)" and nxt = "?p2"
        and n = "Suc (Suc (Suc (Suc n)))" and l = 2
        and v = "JInt (task_id t)" and k = "''id''", OF int_repr_head_not_ws h2 scan_once_int] l2
    by (simp del: parse_object.simps scan_once.simps)
  have h1: "?p1 \<noteq> []" "hd ?p1 = CHR 0x22" by (rule key_head)+
  have "scan_once (Suc (Suc (Suc (Suc (Suc (Suc n)))))) (CHR ''{'' # newline_indent 2 @ ?p1) =
      Some (json_of_task t, r)"
    using scan_once_object [where body = "?p1" and n = "Suc (Suc (Suc (Suc (Suc n))))" and l = 2, OF h1] l1
    by (simp add: task_pairs json_of_task_def del: parse_object.simps scan_once.simps)
  then show ?thesis unfolding iterencode_task by (simp del: parse_object.simps scan_once.simps)
qed

lemma task_head:
  "iterencode 1 (json_of_task t) @ r \<noteq> []" "hd (iterencode 1 (json_of_task t) @ r) = CHR ''{''"
  unfolding iterencode_task by simp_all

lemma join_head:
  "join sep (map (iterencode 1) (map json_of_task (t # ts))) @ r \<noteq> []"
  "hd (join sep (map (iterencode 1) (map json_of_task (t # ts))) @ r) = CHR ''{''"
  using task_head [of t] by (cases ts; simp del: iterencode.simps)+

lemma parse_array_tasks:
  "parse_array (Suc (Suc (Suc (Suc (Suc (Suc (Suc (length ts + n))))))))
     (join (CHR '','' # newline_indent 1) (map (iterencode 1) (map json_of_task (t # ts))) @
      newline_indent 0 @ CHR '']'' # r) =
   Some (map json_of_task (t # ts), r)"
proof (induction ts arbitrary: t)
  case Nil
  show ?case
    using scan_task [of n t "newline_indent 0 @ CHR '']'' # r"]
    by (simp add: skip_ws_indent not_ws del: scan_once.simps iterencode.simps)
next
  case (Cons u us)
  let ?sep = "CHR '','' # newline_indent 1"
  let ?rest = "join ?sep (map (iterencode 1) (map json_of_task (u # us))) @ newline_indent 0 @ CHR '']'' # r"
  have split: "join ?sep (map (iterencode 1) (map json_of_task (t # u # us))) @ newline_indent 0 @ CHR '']'' # r =
      iterencode 1 (json_of_task t) @ CHR '','' # newline_indent 1 @ ?rest"
    by (simp del: iterencode.simps)
  from join_head [of ?sep u us "newline_indent 0 @ CHR '']'' # r"]
  obtain c cs where rest: "?rest = c # cs" "c = CHR ''{''" by (cases ?rest) auto
  then have sk: "skip_ws (newline_indent 1 @ ?rest) = ?rest"
    using skip_ws_indent [of c 1 cs] by (simp add: json_ws_def)
  have one: "scan_once (Suc (Suc (Suc (Suc (Suc (Suc (Suc (length us + n))))))))
      (iterencode 1 (json_of_task t) @ CHR '','' # newline_indent 1 @ ?rest) =
      Some (json_of_task t, CHR '','' # newline_indent 1 @ ?rest)"
    by (rule scan_task)
  show ?case
    unfolding split
    using one sk Cons.IH [of u]
    by (simp add: skip_ws_cons not_ws del: scan_once.simps iterencode.simps join.simps)
qed

lemma length_join: "(\<And>x. x \<in> set xs \<Longrightarrow> x \<noteq> []) \<Longrightarrow> length xs \<le> length (join sep xs)"
proof (induction sep xs rule: join.induct)
  case (1 sep)
  show ?case by simp
next
  case (2 sep x)
  then show ?case by (cases x) auto
next
  case (3 sep x y ys)
  then have "x \<noteq> []" "length (y # ys) \<le> length (join sep (y # ys))" by auto
  then show ?case by (cases x) auto
qed

lemma dumps_tasks:
  "json_dumps (json_of_tasks (t # ts)) =
     CHR ''['' # newline_indent 1 @
       join (CHR '','' # newline_indent 1) (map (iterencode 1) (map json_of_task (t # ts))) @
       newline_indent 0 @ '']''"
  by (simp add: json_dumps_def json_of_tasks_def del: iterencode.simps(7) join.simps)

lemma json_round_trip:
  "json_loads (json_dumps (json_of_tasks tasks)) = Some (json_of_tasks tasks)"
proof (cases tasks)
  case Nil
  have "json_loads ''[]'' = Some (JArr [])" by code_simp
  with Nil show ?thesis by (simp add: json_dumps_def json_of_tasks_def)
next
  case (Cons t ts)
  let ?sep = "CHR '','' # newline_indent 1"
  let ?body = "join ?sep (map (iterencode 1) (map json_of_task (t # ts))) @ newline_indent 0 @ '']''"
  let ?text = "CHR ''['' # newline_indent 1 @ ?body"
  have ne: "x \<noteq> []" if "x \<in> set (map (iterencode 1) (map json_of_task (t # ts)))" for x
  proof -
    from that obtain u where "x = iterencode 1 (json_of_task u)" by auto
    with task_head(1) [of u "[]"] show ?thesis by simp
  qed
  have "length (map (iterencode 1) (map json_of_task (t # ts))) \<le>
        length (join ?sep (map (iterencode 1) (map json_of_task (t # ts))))"
    by (rule length_join) (rule ne)
  then have "length (t # ts) \<le> length (join ?sep (map (iterencode 1) (map json_of_task (t # ts))))"
    by (simp only: length_map)
  then have big: "length ts + 8 \<le> 2 * length ?text"
    by (simp add: newline_indent_def del: iterencode.simps join.simps)
  define L where "L = length ?text"
  define n where "n = 2 * L - 7 - length ts"
  have big': "length ts + 8 \<le> 2 * L" using big unfolding L_def .
  have fuel: "2 * L + 1 = Suc (Suc (Suc (Suc (Suc (Suc (Suc (Suc (length ts + n))))))))"
    using big' by (simp add: n_def)
  have body: "?body \<noteq> []" "hd ?body = CHR ''{''"
    using join_head [of ?sep t ts "newline_indent 0 @ '']''"] by simp_all
  have "parse_array (Suc (Suc (Suc (Suc (Suc (Suc (Suc (length ts + n)))))))) ?body =
      Some (map json_of_task (t # ts), [])"
    using parse_array_tasks [of ts n t "[]"] by (simp only: append_Nil2)
  then have "scan_once (2 * L + 1) ?text = Some (JArr (map json_of_task (t # ts)), [])"
    unfolding fuel scan_once_array [where body = ?body and l = 1, OF body]
    by (simp only: option.map prod.case)
  moreover have "skip_ws ?text = ?text" by (rule skip_ws_cons) (simp add: json_ws_def)
  moreover have "skip_ws [] = []" by (simp add: skip_ws_def)
  ultimately have "json_loads ?text = Some (JArr (map json_of_task (t # ts)))"
    unfolding json_loads_def L_def by (simp only: option.case prod.case if_True simp_thms)
  then show ?thesis
    unfolding Cons dumps_tasks by (simp only: json_of_tasks_def)
qed

subsection \<open>The record collection of the data file\<close>

text \<open>
  The record collection as the documentation of the data file describes it: a sequence of
  records, each with the fields \<^verbatim>\<open>id\<close> (an integer), \<^verbatim>\<open>title\<close> (a text),
  \<^verbatim>\<open>due_date\<close> (a text or absent) and \<^verbatim>\<open>is_complete\<close> (a boolean). No function
  of the source checks this shape; the predicate is the yardstick against which
  \<open>load_tasks\<close> is measured, written after the documentation and not after the code.
\<close>

fun is_int :: "json \<Rightarrow> bool" where
  "is_int (JInt i) = True"
| "is_int v = False"

fun is_str :: "json \<Rightarrow> bool" where
  "is_str (JStr s) = True"
| "is_str v = False"

fun is_bool :: "json \<Rightarrow> bool" where
  "is_bool (JBool b) = True"
| "is_bool v = False"

definition has_field :: "(nat list \<times> json) list \<Rightarrow> string \<Rightarrow> (json \<Rightarrow> bool) \<Rightarrow> bool" where
  "has_field kvs k P = (case map_of kvs (py_str k) of None \<Rightarrow> False | Some v \<Rightarrow> P v)"

fun spec_task_record :: "json \<Rightarrow> bool" where
  "spec_task_record (JObj kvs) =
     (has_field kvs ''id'' is_int \<and> has_field kvs ''title'' is_str \<and>
      has_field kvs ''due_date'' (\<lambda>v. v = JNull \<or> is_str v) \<and>
      has_field kvs ''is_complete'' is_bool)"
| "spec_task_record v = False"

fun spec_record_collection :: "json \<Rightarrow> bool" where
  "spec_record_collection (JArr vs) = list_all spec_task_record vs"
| "spec_record_collection v = False"

lemma load_saved:
  "disk w = Text (json_dumps (json_of_tasks tasks)) \<Longrightarrow> load_tasks w = Inr (json_of_tasks tasks)"
  by (simp add: load_tasks_def open_and_load_def json_round_trip)

lemma py_str_inj: "py_str a = py_str b \<Longrightarrow> a = b"
proof -
  assume "py_str a = py_str b"
  then have "map (char_of :: nat \<Rightarrow> char) (py_str a) = map char_of (py_str b)" by simp
  then show ?thesis by (simp add: py_str_def comp_def)
qed

lemma json_of_task_inj: "json_of_task a = json_of_task b \<Longrightarrow> a = b"
  by (cases a; cases b) (auto simp: json_of_task_def split: option.splits dest: py_str_inj)

lemma json_of_tasks_inj: "inj json_of_tasks"
proof (rule injI)
  fix xs ys assume "json_of_tasks xs = json_of_tasks ys"
  then have "map json_of_task xs = map json_of_task ys" by (simp add: json_of_tasks_def)
  moreover have "inj json_of_task" by (rule injI) (rule json_of_task_inj)
  ultimately show "xs = ys" by (simp add: inj_map_eq_map)
qed

lemma saved_is_collection: "spec_record_collection (json_of_tasks tasks)"
  by (auto simp: json_of_tasks_def json_of_task_def list_all_iff has_field_def py_str_def
      split: option.splits)

subsection \<open>The calendar, and the date texts \<^verbatim>\<open>read_optional_date\<close> accepts\<close>

text \<open>
  The dates of the calendar, written after the documentation and not after the code:
  years 1 to 9999 (the range of \<^verbatim>\<open>datetime\<close>), months 1 to 12, and days from 1
  to the length of the month, February having 29 days in the years divisible by 4 that
  are not divisible by 100 or are divisible by 400. \<open>spec_iso\<close> is the normalized
  form \<^verbatim>\<open>YYYY-MM-DD\<close> of a date: four digits, two digits, two digits.
  \<open>spec_date_texts\<close> lists the texts that stand for a date: the year in four digits,
  the month in two digits or, below 10, in one, and the day in two digits or, below 10,
  in one digit or in one digit after a blank. \<open>spec_valid_date_text\<close> holds of the
  texts that stand for some date of the calendar.
\<close>

definition spec_leap_year :: "nat \<Rightarrow> bool" where
  "spec_leap_year y = (4 dvd y \<and> (\<not> 100 dvd y \<or> 400 dvd y))"

definition spec_month_length :: "nat \<Rightarrow> nat \<Rightarrow> nat" where
  "spec_month_length y m =
     [31, if spec_leap_year y then 29 else 28, 31, 30, 31, 30, 31, 31, 30, 31, 30, 31] ! (m - 1)"

definition spec_calendar_date :: "nat \<Rightarrow> nat \<Rightarrow> nat \<Rightarrow> bool" where
  "spec_calendar_date y m d =
     (1 \<le> y \<and> y \<le> 9999 \<and> 1 \<le> m \<and> m \<le> 12 \<and> 1 \<le> d \<and> d \<le> spec_month_length y m)"

definition spec_digit :: "nat \<Rightarrow> char" where
  "spec_digit n = ''0123456789'' ! (n mod 10)"

definition spec_two_digits :: "nat \<Rightarrow> string" where
  "spec_two_digits n = [spec_digit (n div 10), spec_digit n]"

definition spec_four_digits :: "nat \<Rightarrow> string" where
  "spec_four_digits n = [spec_digit (n div 1000), spec_digit (n div 100), spec_digit (n div 10), spec_digit n]"


definition spec_month_texts :: "nat \<Rightarrow> string list" where
  "spec_month_texts m = spec_two_digits m # (if m < 10 then [[spec_digit m]] else [])"

definition spec_day_texts :: "nat \<Rightarrow> string list" where
  "spec_day_texts d =
     spec_two_digits d # (if d < 10 then [[spec_digit d], [CHR '' '', spec_digit d]] else [])"

definition spec_date_texts :: "nat \<Rightarrow> nat \<Rightarrow> nat \<Rightarrow> string list" where
  "spec_date_texts y m d =
     [spec_four_digits y @ ''-'' @ M @ ''-'' @ D. M \<leftarrow> spec_month_texts m, D \<leftarrow> spec_day_texts d]"


text \<open>
  \<open>strptime\<close> accepts exactly the texts of the dates of the calendar, and \<open>strftime\<close>
  prints the normalized form.
\<close>

lemma ten_cases:
  assumes "n < (10::nat)"
  obtains "n = 0" | "n = 1" | "n = 2" | "n = 3" | "n = 4" | "n = 5" | "n = 6" | "n = 7" | "n = 8" | "n = 9"
  using assms by atomize_elim arith

lemma spec_digit_values:
  "spec_digit 0 = CHR ''0''" "spec_digit 1 = CHR ''1''" "spec_digit 2 = CHR ''2''"
  "spec_digit 3 = CHR ''3''" "spec_digit 4 = CHR ''4''" "spec_digit 5 = CHR ''5''"
  "spec_digit 6 = CHR ''6''" "spec_digit 7 = CHR ''7''" "spec_digit 8 = CHR ''8''"
  "spec_digit 9 = CHR ''9''" "spec_digit (Suc 0) = CHR ''1''"
  by (simp_all add: spec_digit_def)

lemma spec_digit_mod: "spec_digit (n mod 10) = spec_digit n"
  by (simp add: spec_digit_def)

lemma spec_digit_props:
  assumes "n < 10"
  shows "isdecimal_char (spec_digit n)" "digit_value (spec_digit n) = int n"
    "spec_digit n = digit_char n"
  using assms
  by (cases n rule: ten_cases; simp add: spec_digit_values isdecimal_char_def digit_value_def digit_chars)+

lemma decimal_is_spec_digit:
  assumes "isdecimal_char c"
  shows "\<exists>n<10. c = spec_digit n"
proof -
  define k where "k = (of_char c :: nat) - 48"
  from assms have k: "k < 10" "of_char c = 48 + k"
    by (auto simp: isdecimal_char_def k_def)
  then have "c = char_of (48 + k)" by (metis char_of_char)
  then have "c = digit_char k" by (simp add: digit_char_def)
  with k(1) show ?thesis by (auto simp: spec_digit_props)
qed


lemma twelve_cases:
  assumes "1 \<le> m" "m \<le> (12::nat)"
  obtains "m = 1" | "m = 2" | "m = 3" | "m = 4" | "m = 5" | "m = 6" | "m = 7" | "m = 8" | "m = 9"
    | "m = 10" | "m = 11" | "m = 12"
  using assms by atomize_elim arith

lemma month_length_agrees:
  assumes "1 \<le> m" "m \<le> 12"
  shows "days_in_month y m = spec_month_length y m"
  using assms
  by (cases m rule: twelve_cases)
     (simp_all add: days_in_month_def spec_month_length_def is_leap_def spec_leap_year_def
        dvd_eq_mod_eq_0)

lemma month_length_le: "1 \<le> m \<Longrightarrow> m \<le> 12 \<Longrightarrow> spec_month_length y m \<le> 31"
  by (cases m rule: twelve_cases) (simp_all add: spec_month_length_def)

lemma month_texts_parse:
  assumes "1 \<le> m" "m \<le> 12" "M \<in> set (spec_month_texts m)"
  shows "month_then_hyphen (match_month (M @ CHR ''-'' # r)) = Some (m, r)"
  using assms
  by (cases m rule: twelve_cases)
     (auto simp: spec_month_texts_def spec_two_digits_def spec_digit_def digit_value_def)

lemma match_month_texts:
  assumes "month_then_hyphen (match_month r) = Some (m, r')"
  shows "1 \<le> m \<and> m \<le> 12 \<and> (\<exists>M\<in>set (spec_month_texts m). r = M @ CHR ''-'' # r')"
proof (cases r)
  case Nil
  with assms show ?thesis by simp
next
  case (Cons a r1)
  show ?thesis
  proof (cases r1)
    case Nil
    with Cons assms show ?thesis by (simp split: if_splits)
  next
    case (Cons b r2)
    with \<open>r = a # r1\<close> assms show ?thesis
      by (auto simp: spec_month_texts_def spec_two_digits_def spec_digit_def digit_value_def
          split: if_splits list.splits)
  qed
qed


lemma thirtyone_cases:
  assumes "1 \<le> d" "d \<le> (31::nat)"
  obtains "d < 10" | "10 \<le> d" "d < 20" | "20 \<le> d" "d < 30" | "d = 30" | "d = 31"
  using assms by atomize_elim arith

lemma day_texts_parse:
  assumes "1 \<le> d" "d \<le> 31" "D \<in> set (spec_day_texts d)"
  shows "match_day D = Some (d, [])"
  using assms(1,2)
proof (cases rule: thirtyone_cases)
  case 1
  with assms(1) have "d \<in> {1, 2, 3, 4, 5, 6, 7, 8, 9}" by auto
  with assms(3) show ?thesis
    by (auto simp: spec_day_texts_def spec_two_digits_def spec_digit_def digit_value_def)
next
  case 2
  define k where "k = d - 10"
  with 2 have k: "d = 10 + k" "k < 10" by simp_all
  from k(2) assms(3) show ?thesis unfolding k(1)
    by (cases k rule: ten_cases)
       (auto simp: spec_day_texts_def spec_two_digits_def spec_digit_def digit_value_def isdecimal_char_def)
next
  case 3
  define k where "k = d - 20"
  with 3 have k: "d = 20 + k" "k < 10" by simp_all
  from k(2) assms(3) show ?thesis unfolding k(1)
    by (cases k rule: ten_cases)
       (auto simp: spec_day_texts_def spec_two_digits_def spec_digit_def digit_value_def isdecimal_char_def)
next
  case 4
  with assms(3) show ?thesis
    by (auto simp: spec_day_texts_def spec_two_digits_def spec_digit_def digit_value_def)
next
  case 5
  with assms(3) show ?thesis
    by (auto simp: spec_day_texts_def spec_two_digits_def spec_digit_def digit_value_def)
qed

lemma match_day_texts:
  assumes "match_day r = Some (d, [])"
  shows "1 \<le> d \<and> d \<le> 31 \<and> r \<in> set (spec_day_texts d)"
proof (cases r)
  case Nil
  with assms show ?thesis by simp
next
  case (Cons a r1)
  show ?thesis
  proof (cases r1)
    case Nil
    with Cons assms show ?thesis
      by (auto simp: spec_day_texts_def spec_two_digits_def spec_digit_def digit_value_def
          split: if_splits)
  next
    case (Cons b r2)
    note r = \<open>r = a # r1\<close> Cons
    show ?thesis
    proof (cases "a \<in> set ''12'' \<and> isdecimal_char b")
      case True
      then obtain n where n: "n < 10" "b = spec_digit n"
        using decimal_is_spec_digit by blast
      from n(1) True assms r show ?thesis unfolding n(2)
        by (cases n rule: ten_cases)
           (auto simp: spec_day_texts_def spec_two_digits_def spec_digit_def digit_value_def
              isdecimal_char_def split: if_splits)
    next
      case False
      with assms r show ?thesis
        by (auto simp: spec_day_texts_def spec_two_digits_def spec_digit_def digit_value_def
            split: if_splits)
    qed
  qed
qed

lemma step10:
  fixes q d :: nat
  assumes "d < 10"
  shows "(10 * q + d) div 10 = q" "(10 * q + d) mod 10 = d"
  using assms by simp_all

lemma div_parts:
  fixes a b c d :: nat
  assumes "b < 10" "c < 10" "d < 10"
  shows "(1000 * a + 100 * b + 10 * c + d) div 1000 = a"
    "(1000 * a + 100 * b + 10 * c + d) div 100 mod 10 = b"
    "(1000 * a + 100 * b + 10 * c + d) div 10 mod 10 = c"
    "(1000 * a + 100 * b + 10 * c + d) mod 10 = d"
proof -
  let ?y = "1000 * a + 100 * b + 10 * c + d"
  have y: "?y = 10 * (100 * a + 10 * b + c) + d" by simp
  have d10: "?y div 10 = 100 * a + 10 * b + c" and "?y mod 10 = d"
    unfolding y using step10 [OF assms(3)] by blast+
  then show "?y mod 10 = d" by simp
  have y1: "100 * a + 10 * b + c = 10 * (10 * a + b) + c" by simp
  have d100: "?y div 10 div 10 = 10 * a + b" and m10: "?y div 10 mod 10 = c"
    unfolding d10 y1 using step10 [OF assms(2)] by blast+
  show "?y div 10 mod 10 = c" by (rule m10)
  have e100: "?y div 100 = ?y div 10 div 10" by (simp add: div_mult2_eq)
  have e1000: "?y div 1000 = ?y div 10 div 10 div 10" by (simp add: div_mult2_eq)
  show "?y div 100 mod 10 = b" unfolding e100 d100 using step10 [OF assms(1)] by blast
  show "?y div 1000 = a" unfolding e1000 d100 using step10 [OF assms(1)] by blast
qed

lemma digits_of:
  fixes y :: nat
  shows "y = 1000 * (y div 1000) + 100 * (y div 100 mod 10) + 10 * (y div 10 mod 10) + y mod 10"
proof -
  have e100: "y div 100 = y div 10 div 10" by (simp add: div_mult2_eq)
  have e1000: "y div 1000 = y div 10 div 10 div 10" by (simp add: div_mult2_eq)
  define p where "p = y div 10"
  define q where "q = p div 10"
  have 1: "y = 10 * p + y mod 10" by (simp add: p_def)
  have 2: "p = 10 * q + p mod 10" by (simp add: q_def)
  have 3: "q = 10 * (q div 10) + q mod 10" by simp
  show ?thesis unfolding e100 e1000 using 1 2 3 unfolding p_def [symmetric] q_def [symmetric]
    by linarith
qed

lemma spec_digit_value: "digit_value (spec_digit n) = int (n mod 10)"
  using spec_digit_props(2) [of "n mod 10"] by (simp add: spec_digit_mod)

lemma spec_digit_decimal: "isdecimal_char (spec_digit n)"
  using spec_digit_props(1) [of "n mod 10"] by (simp add: spec_digit_mod)

lemma four_digits_value:
  assumes "y \<le> 9999"
  shows "nat (decimal_value (spec_four_digits y)) = y"
proof -
  from assms have "y div 1000 < 10" by simp
  then have m: "y div 1000 mod 10 = y div 1000" by simp
  have "decimal_value (spec_four_digits y) =
      int (1000 * (y div 1000) + 100 * (y div 100 mod 10) + 10 * (y div 10 mod 10) + y mod 10)"
    by (simp add: decimal_value_def spec_four_digits_def spec_digit_value m)
  also have "\<dots> = int y" using digits_of [of y] by simp
  finally show ?thesis by simp
qed

lemma four_digits_of_value:
  assumes "list_all isdecimal_char [y1, y2, y3, y4]"
  shows "spec_four_digits (nat (decimal_value [y1, y2, y3, y4])) = [y1, y2, y3, y4] \<and>
         nat (decimal_value [y1, y2, y3, y4]) \<le> 9999"
proof -
  from assms have "isdecimal_char y1" "isdecimal_char y2" "isdecimal_char y3" "isdecimal_char y4"
    by simp_all
  then obtain a b c d where
    d: "a < 10" "y1 = spec_digit a" "b < 10" "y2 = spec_digit b"
       "c < 10" "y3 = spec_digit c" "d < 10" "y4 = spec_digit d"
    using decimal_is_spec_digit by metis
  let ?y = "1000 * a + 100 * b + 10 * c + d"
  have "decimal_value [y1, y2, y3, y4] = int ?y"
    using d by (simp add: decimal_value_def spec_digit_value)
  then have y: "nat (decimal_value [y1, y2, y3, y4]) = ?y" by simp
  have "spec_digit (?y div 1000) = spec_digit a"
    using div_parts(1) [OF d(3) d(5) d(7), of a] by simp
  moreover have "spec_digit (?y div 100) = spec_digit b"
    using div_parts(2) [OF d(3) d(5) d(7), of a] spec_digit_mod [of "?y div 100"] by simp
  moreover have "spec_digit (?y div 10) = spec_digit c"
    using div_parts(3) [OF d(3) d(5) d(7), of a] spec_digit_mod [of "?y div 10"] by simp
  moreover have "spec_digit ?y = spec_digit d"
    using div_parts(4) [OF d(3) d(5) d(7), of a] spec_digit_mod [of "?y"] by simp
  moreover have "?y \<le> 9999" using d by simp
  ultimately show ?thesis unfolding y by (simp add: spec_four_digits_def d)
qed

lemma strptime_accepts:
  assumes "spec_calendar_date y m d" "s \<in> set (spec_date_texts y m d)"
  shows "strptime s = Inr \<lparr>year = y, month = m, day = d\<rparr>"
proof -
  from assms(1) have b: "1 \<le> y" "y \<le> 9999" "1 \<le> m" "m \<le> 12" "1 \<le> d" "d \<le> spec_month_length y m"
    by (simp_all add: spec_calendar_date_def)
  from b(3,4) have d31: "d \<le> 31" using b(6) month_length_le [of m y] by simp
  from assms(2) obtain M D where
    s: "s = spec_four_digits y @ CHR ''-'' # M @ CHR ''-'' # D"
    and M: "M \<in> set (spec_month_texts m)" and D: "D \<in> set (spec_day_texts d)"
    by (auto simp: spec_date_texts_def)
  have mm: "month_then_hyphen (match_month (M @ CHR ''-'' # D)) = Some (m, D)"
    by (rule month_texts_parse [OF b(3,4) M])
  have dd: "match_day D = Some (d, [])"
    by (rule day_texts_parse [OF b(5) d31 D])
  have yy: "nat (decimal_value (spec_four_digits y)) = y"
    by (rule four_digits_value [OF b(2)])
  have dim: "days_in_month y m = spec_month_length y m"
    by (rule month_length_agrees [OF b(3,4)])
  have "strptime (spec_digit (y div 1000) # spec_digit (y div 100) # spec_digit (y div 10) # spec_digit y #
          CHR ''-'' # M @ CHR ''-'' # D) = Inr \<lparr>year = y, month = m, day = d\<rparr>"
    using mm dd yy dim b
    by (simp add: strptime_def spec_digit_decimal spec_four_digits_def)
  then show ?thesis by (simp add: s spec_four_digits_def)
qed

lemma strptime_accepted:
  assumes "strptime s = Inr dt"
  shows "spec_calendar_date (year dt) (month dt) (day dt) \<and>
         s \<in> set (spec_date_texts (year dt) (month dt) (day dt))"
proof -
  from assms obtain y1 y2 y3 y4 r m r' d where
    s: "s = y1 # y2 # y3 # y4 # CHR ''-'' # r"
    and dec: "list_all isdecimal_char [y1, y2, y3, y4]"
    and mm: "month_then_hyphen (match_month r) = Some (m, r')"
    and dd: "match_day r' = Some (d, [])"
    and y: "1 \<le> nat (decimal_value [y1, y2, y3, y4])"
    and dim: "d \<le> days_in_month (nat (decimal_value [y1, y2, y3, y4])) m"
    and dt: "dt = \<lparr>year = nat (decimal_value [y1, y2, y3, y4]), month = m, day = d\<rparr>"
    by (auto simp: strptime_def Let_def split: list.splits if_splits option.splits)
  let ?y = "nat (decimal_value [y1, y2, y3, y4])"
  from match_month_texts [OF mm] obtain M where
    m: "1 \<le> m" "m \<le> 12" and M: "M \<in> set (spec_month_texts m)" "r = M @ CHR ''-'' # r'"
    by blast
  from match_day_texts [OF dd] have d: "1 \<le> d" "d \<le> 31" "r' \<in> set (spec_day_texts d)"
    by simp_all
  from four_digits_of_value [OF dec] have f: "spec_four_digits ?y = [y1, y2, y3, y4]" "?y \<le> 9999"
    by simp_all
  have "spec_calendar_date ?y m d"
    using y f(2) m d(1) dim month_length_agrees [OF m, of ?y]
    by (simp add: spec_calendar_date_def)
  moreover have "s \<in> set (spec_date_texts ?y m d)"
    using M d(3) by (auto simp: spec_date_texts_def f(1) s)
  ultimately show ?thesis by (simp add: dt)
qed

lemma strptime_iff:
  "strptime s = Inr dt \<longleftrightarrow>
     spec_calendar_date (year dt) (month dt) (day dt) \<and>
     s \<in> set (spec_date_texts (year dt) (month dt) (day dt))"
proof
  assume "strptime s = Inr dt"
  then show "spec_calendar_date (year dt) (month dt) (day dt) \<and>
     s \<in> set (spec_date_texts (year dt) (month dt) (day dt))"
    by (rule strptime_accepted)
next
  assume "spec_calendar_date (year dt) (month dt) (day dt) \<and>
     s \<in> set (spec_date_texts (year dt) (month dt) (day dt))"
  then have "strptime s = Inr \<lparr>year = year dt, month = month dt, day = day dt\<rparr>"
    using strptime_accepts by blast
  then show "strptime s = Inr dt" by simp
qed


















section \<open>The claims\<close>

subsection \<open>C10: complete and delete on an empty collection\<close>

text \<open>
  C10. When the collection is empty, \<^verbatim>\<open>mark_complete\<close> and \<^verbatim>\<open>delete_task\<close>
  print the header and one message and return: the list is still empty, the output has
  gained four printed lines and no prompt, no line of the input was read, and the data
  file is as it was (nothing is saved).
\<close>

theorem empty_collection_untouched:
  "mark_complete [] w =
     (Inr [], w\<lparr>stdout := stdout w @
        [Print (CHR 0x0A # replicate 40 (CHR ''='')), Print ''MARK TASK COMPLETE'',
         Print (replicate 40 (CHR ''='') @ [CHR 0x0A]), Print ''No tasks to mark complete.'']\<rparr>) \<and>
   delete_task [] w =
     (Inr [], w\<lparr>stdout := stdout w @
        [Print (CHR 0x0A # replicate 40 (CHR ''='')), Print ''DELETE A TASK'',
         Print (replicate 40 (CHR ''='') @ [CHR 0x0A]), Print ''No tasks to delete.'']\<rparr>)"
  by (simp add: mark_complete_def delete_task_def print_header_def print_def)

subsection \<open>C5: delete removes the chosen task\<close>

text \<open>
  C5. Let the collection be non-empty and let \<open>i\<close> be the display index that
  \<^verbatim>\<open>read_int\<close> returned to \<^verbatim>\<open>delete_task\<close>. Then \<open>i\<close> is within the bounds
  of the list, the task at display position \<open>i\<close> is removed and no other, the tasks
  before it keep their position, the tasks after it move up by one, every remaining
  task is the record it was (id and all other fields), the new list is saved, and the
  title of the removed task is printed.
\<close>

theorem delete_task_removes_chosen:
  assumes "tasks \<noteq> []"
    and "read_int (CHR 0x0A # ''Enter the task number to delete: '') 1 (int (length tasks))
           (list_tasks tasks (print_header ''DELETE A TASK'' w)) = (Inr i, w2)"
  shows "1 \<le> i \<and> i \<le> int (length tasks) \<and>
    delete_task tasks w =
      (Inr (take (nat (i - 1)) tasks @ drop (nat i) tasks),
       print (''Deleted: '' @ title (tasks ! nat (i - 1)))
         (save_tasks (take (nat (i - 1)) tasks @ drop (nat i) tasks) w2)) \<and>
    length (take (nat (i - 1)) tasks @ drop (nat i) tasks) = length tasks - 1 \<and>
    (\<forall>k. k < nat (i - 1) \<longrightarrow> (take (nat (i - 1)) tasks @ drop (nat i) tasks) ! k = tasks ! k) \<and>
    (\<forall>k. nat (i - 1) \<le> k \<and> k < length tasks - 1 \<longrightarrow>
         (take (nat (i - 1)) tasks @ drop (nat i) tasks) ! k = tasks ! Suc k)"
proof -
  from read_int_post [OF assms(2)] have bounds: "1 \<le> i" "i \<le> int (length tasks)" by simp_all
  then have suc: "Suc (nat (i - 1)) = nat i" by simp
  have run: "delete_task tasks w =
      (Inr (take (nat (i - 1)) tasks @ drop (nat i) tasks),
       print (''Deleted: '' @ title (tasks ! nat (i - 1)))
         (save_tasks (take (nat (i - 1)) tasks @ drop (nat i) tasks) w2))"
    using assms bounds by (simp add: delete_task_def Let_def py_index_valid suc)
  have len: "length (take (nat (i - 1)) tasks @ drop (nat i) tasks) = length tasks - 1"
    using bounds by simp
  have before: "(take (nat (i - 1)) tasks @ drop (nat i) tasks) ! k = tasks ! k" if "k < nat (i - 1)" for k
    using that bounds by (simp add: nth_append)
  have after: "(take (nat (i - 1)) tasks @ drop (nat i) tasks) ! k = tasks ! Suc k"
    if "nat (i - 1) \<le> k \<and> k < length tasks - 1" for k
  proof -
    from that bounds have "nat i + (k - nat (i - 1)) = Suc k" by linarith
    with that bounds show ?thesis by (simp add: nth_append min_def)
  qed
  from bounds run len before after show ?thesis by blast
qed

text \<open>The scenario of the specification: of two tasks with ids 1 and 2, the first is
  deleted, and the task with id 2 is then at display position 1.\<close>

theorem delete_task_removes_chosen_witness:
  "fst (delete_task
          [\<lparr>task_id = 1, title = ''a'', due_date = None, is_complete = False\<rparr>,
           \<lparr>task_id = 2, title = ''b'', due_date = None, is_complete = False\<rparr>]
          \<lparr>stdin = [''1''], stdout = [], disk = Missing\<rparr>) =
   Inr [\<lparr>task_id = 2, title = ''b'', due_date = None, is_complete = False\<rparr>]"
proof -
  let ?ts = "[\<lparr>task_id = 1, title = ''a'', due_date = None, is_complete = False\<rparr>,
              \<lparr>task_id = 2, title = ''b'', due_date = None, is_complete = False\<rparr>]"
  let ?w = "\<lparr>stdin = [''1''], stdout = [], disk = Missing\<rparr>"
  let ?w1 = "list_tasks ?ts (print_header ''DELETE A TASK'' ?w)"
  have "stdin ?w1 = nat_repr 1 # []" by (simp add: nat_repr_digit digit_chars)
  from read_int_numeral [OF this, of 1 "int (length ?ts)"]
  obtain w2 where r: "read_int (CHR 0x0A # ''Enter the task number to delete: '') 1 (int (length ?ts)) ?w1 = (Inr 1, w2)"
    by simp
  have ne: "?ts \<noteq> []" by simp
  from delete_task_removes_chosen [OF ne r] show ?thesis by simp
qed

subsection \<open>C6: complete sets one flag, and is idempotent\<close>

text \<open>
  C6. Let the collection be non-empty and let \<open>i\<close> be the display index that
  \<^verbatim>\<open>read_int\<close> returned to \<^verbatim>\<open>mark_complete\<close>. Then \<open>i\<close> is within the
  bounds, the task at display position \<open>i\<close> is the record it was with
  \<^verbatim>\<open>is_complete\<close> set to true, every other task is unchanged, the list has the
  length it had, and the new list is saved. Applying the action again with the same
  index to the result returns the result.
\<close>

theorem mark_complete_sets_flag:
  assumes "tasks \<noteq> []"
    and "read_int (CHR 0x0A # ''Enter the task number to mark complete: '') 1 (int (length tasks))
           (list_tasks tasks (print_header ''MARK TASK COMPLETE'' w)) = (Inr i, w2)"
  shows "1 \<le> i \<and> i \<le> int (length tasks) \<and>
    (let k = nat (i - 1); tasks' = tasks[k := (tasks ! k)\<lparr>is_complete := True\<rparr>] in
       mark_complete tasks w =
         (Inr tasks', print ''Task marked complete and saved!'' (save_tasks tasks' w2)) \<and>
       length tasks' = length tasks \<and>
       tasks' ! k = (tasks ! k)\<lparr>is_complete := True\<rparr> \<and>
       (\<forall>j. j < length tasks \<and> j \<noteq> k \<longrightarrow> tasks' ! j = tasks ! j) \<and>
       (\<forall>v v2. read_int (CHR 0x0A # ''Enter the task number to mark complete: '') 1 (int (length tasks'))
                  (list_tasks tasks' (print_header ''MARK TASK COMPLETE'' v)) = (Inr i, v2)
              \<longrightarrow> fst (mark_complete tasks' v) = Inr tasks'))"
proof -
  from read_int_post [OF assms(2)] have bounds: "1 \<le> i" "i \<le> int (length tasks)" by simp_all
  define k where "k = nat (i - 1)"
  define tasks' where "tasks' = tasks[k := (tasks ! k)\<lparr>is_complete := True\<rparr>]"
  from bounds have k: "k < length tasks" by (simp add: k_def)
  have run: "mark_complete tasks w =
      (Inr tasks', print ''Task marked complete and saved!'' (save_tasks tasks' w2))"
    using assms bounds by (simp add: mark_complete_def Let_def py_index_valid k_def tasks'_def)
  have len: "length tasks' = length tasks" by (simp add: tasks'_def)
  have at: "tasks' ! k = (tasks ! k)\<lparr>is_complete := True\<rparr>" using k by (simp add: tasks'_def)
  have other: "tasks' ! j = tasks ! j" if "j < length tasks \<and> j \<noteq> k" for j
    using that by (simp add: tasks'_def)
  have again: "tasks'[k := (tasks' ! k)\<lparr>is_complete := True\<rparr>] = tasks'"
    using k by (simp add: tasks'_def)
  have twice: "fst (mark_complete tasks' v) = Inr tasks'"
    if "read_int (CHR 0x0A # ''Enter the task number to mark complete: '') 1 (int (length tasks'))
          (list_tasks tasks' (print_header ''MARK TASK COMPLETE'' v)) = (Inr i, v2)" for v v2
  proof -
    from assms(1) len have ne: "tasks' \<noteq> []" by auto
    from bounds len have "py_index (length tasks') (i - 1) = Inr k"
      by (simp add: py_index_valid k_def)
    with that ne again show ?thesis by (simp add: mark_complete_def Let_def)
  qed
  from bounds run len at other twice show ?thesis
    unfolding Let_def k_def [symmetric] tasks'_def [symmetric] by blast
qed

theorem mark_complete_sets_flag_witness:
  "fst (mark_complete
          [\<lparr>task_id = 1, title = ''a'', due_date = None, is_complete = False\<rparr>,
           \<lparr>task_id = 2, title = ''b'', due_date = None, is_complete = False\<rparr>]
          \<lparr>stdin = [''2''], stdout = [], disk = Missing\<rparr>) =
   Inr [\<lparr>task_id = 1, title = ''a'', due_date = None, is_complete = False\<rparr>,
        \<lparr>task_id = 2, title = ''b'', due_date = None, is_complete = True\<rparr>] \<and>
   fst (mark_complete
          [\<lparr>task_id = 1, title = ''a'', due_date = None, is_complete = False\<rparr>,
           \<lparr>task_id = 2, title = ''b'', due_date = None, is_complete = True\<rparr>]
          \<lparr>stdin = [''2''], stdout = [], disk = Missing\<rparr>) =
   Inr [\<lparr>task_id = 1, title = ''a'', due_date = None, is_complete = False\<rparr>,
        \<lparr>task_id = 2, title = ''b'', due_date = None, is_complete = True\<rparr>]"
proof -
  let ?ts = "[\<lparr>task_id = 1, title = ''a'', due_date = None, is_complete = False\<rparr>,
              \<lparr>task_id = 2, title = ''b'', due_date = None, is_complete = False\<rparr>]"
  let ?ts' = "[\<lparr>task_id = 1, title = ''a'', due_date = None, is_complete = False\<rparr>,
              \<lparr>task_id = 2, title = ''b'', due_date = None, is_complete = True\<rparr>]"
  let ?w = "\<lparr>stdin = [''2''], stdout = [], disk = Missing\<rparr>"
  let ?p = "CHR 0x0A # ''Enter the task number to mark complete: ''"
  have "stdin (list_tasks ?ts (print_header ''MARK TASK COMPLETE'' ?w)) = nat_repr 2 # []"
    by (simp add: nat_repr_digit digit_chars)
  from read_int_numeral [OF this, of 1 "int (length ?ts)"]
  obtain w2 where r: "read_int ?p 1 (int (length ?ts)) (list_tasks ?ts (print_header ''MARK TASK COMPLETE'' ?w)) = (Inr 2, w2)"
    by simp
  have "stdin (list_tasks ?ts' (print_header ''MARK TASK COMPLETE'' ?w)) = nat_repr 2 # []"
    by (simp add: nat_repr_digit digit_chars)
  from read_int_numeral [OF this, of 1 "int (length ?ts')"]
  obtain v2 where r': "read_int ?p 1 (int (length ?ts')) (list_tasks ?ts' (print_header ''MARK TASK COMPLETE'' ?w)) = (Inr 2, v2)"
    by simp
  have ne: "?ts \<noteq> []" by simp
  from mark_complete_sets_flag [OF ne r] r' show ?thesis by (simp add: Let_def)
qed

subsection \<open>C3: add assigns the next id\<close>

text \<open>
  C3. When \<^verbatim>\<open>read_non_empty\<close> returns the title and \<^verbatim>\<open>read_optional_date\<close> the
  due date, \<^verbatim>\<open>add_task\<close> appends at the end of the list a task with that title, that
  due date, \<^verbatim>\<open>is_complete\<close> false, and the id 1 if the list was empty, otherwise the
  greatest id in the list plus one; it saves the new list. In every list built from the
  empty list by adds alone the ids are 1, 2, 3, ... in this order, so they are
  strictly increasing and pairwise distinct.
\<close>

theorem add_task_assigns_next_id:
  "(read_non_empty ''Task title: '' (print_header ''ADD A TASK'' w) = (Inr ttl, w1) \<and>
    read_optional_date ''Due date (YYYY-MM-DD) or press Enter to skip: '' w1 = (Inr due, w2) \<longrightarrow>
      add_task tasks w =
        (Inr (tasks @ [\<lparr>task_id = (if tasks = [] then 1 else Max (set (map task_id tasks)) + 1),
                         title = ttl, due_date = due, is_complete = False\<rparr>]),
         print ''Task added and saved!''
           (save_tasks (tasks @ [\<lparr>task_id = (if tasks = [] then 1 else Max (set (map task_id tasks)) + 1),
                                   title = ttl, due_date = due, is_complete = False\<rparr>]) w2))) \<and>
   (adds_only ts \<longrightarrow>
      map task_id ts = map int [1..<Suc (length ts)] \<and>
      sorted_wrt (<) (map task_id ts) \<and> distinct (map task_id ts))"
proof -
  have first: "read_non_empty ''Task title: '' (print_header ''ADD A TASK'' w) = (Inr ttl, w1) \<and>
    read_optional_date ''Due date (YYYY-MM-DD) or press Enter to skip: '' w1 = (Inr due, w2) \<longrightarrow>
      add_task tasks w =
        (Inr (tasks @ [\<lparr>task_id = (if tasks = [] then 1 else Max (set (map task_id tasks)) + 1),
                         title = ttl, due_date = due, is_complete = False\<rparr>]),
         print ''Task added and saved!''
           (save_tasks (tasks @ [\<lparr>task_id = (if tasks = [] then 1 else Max (set (map task_id tasks)) + 1),
                                   title = ttl, due_date = due, is_complete = False\<rparr>]) w2))"
    by (simp add: add_task_def next_task_id_def Let_def)
  have second: "map task_id ts = map int [1..<Suc (length ts)] \<and>
      sorted_wrt (<) (map task_id ts) \<and> distinct (map task_id ts)" if "adds_only ts"
  proof -
    from adds_only_ids [OF that] have ids: "map task_id ts = map int [1..<Suc (length ts)]" .
    have "sorted_wrt (<) (map int [1..<Suc (length ts)])"
      by (simp add: sorted_wrt_map del: upt_Suc)
    moreover have "distinct (map int [1..<Suc (length ts)])"
      by (simp add: distinct_map del: upt_Suc)
    ultimately show ?thesis using ids by simp
  qed
  from first second show ?thesis by blast
qed

text \<open>The scenario of the specification: adding "Buy milk" without a due date to the
  empty collection gives one task with id 1.\<close>

theorem add_task_assigns_next_id_witness:
  "fst (add_task [] \<lparr>stdin = [''Buy milk'', ''''], stdout = [], disk = Missing\<rparr>) =
     Inr [\<lparr>task_id = 1, title = ''Buy milk'', due_date = None, is_complete = False\<rparr>] \<and>
   adds_only [\<lparr>task_id = 1, title = ''Buy milk'', due_date = None, is_complete = False\<rparr>] \<and>
   map task_id [\<lparr>task_id = 1, title = ''Buy milk'', due_date = None, is_complete = False\<rparr>] = [1]"
proof -
  let ?w = "\<lparr>stdin = [''Buy milk'', ''''], stdout = [], disk = Missing\<rparr>"
  let ?t = "\<lparr>task_id = 1, title = ''Buy milk'', due_date = None, is_complete = False\<rparr>"
  obtain w1 where h1: "read_non_empty ''Task title: '' (print_header ''ADD A TASK'' ?w) = (Inr ''Buy milk'', w1)"
    and st: "stdin w1 = ['''']"
    by (simp add: read_non_empty_line strip_def isspace_def Let_def)
  obtain w2 where h2: "read_optional_date ''Due date (YYYY-MM-DD) or press Enter to skip: '' w1 = (Inr None, w2)"
    using st by (simp add: read_optional_date_line strip_def Let_def)
  from add_task_assigns_next_id [of ?w "''Buy milk''" w1 None w2 "[]", THEN conjunct1] h1 h2
  have run: "add_task [] ?w = (Inr [?t], print ''Task added and saved!'' (save_tasks [?t] w2))"
    by simp
  with adds_only.empty have ao: "adds_only [?t]" by (rule adds_only.add)
  from add_task_assigns_next_id [of _ _ _ _ _ _ "[?t]", THEN conjunct2] ao
  have "map task_id [?t] = map int [1..<Suc (length [?t])]" by blast
  with run ao show ?thesis by simp
qed

subsection \<open>C2: ids are unique and never changed, but an id can come back\<close>

text \<open>
  C2, as amended. In every list reached from the empty list by add, complete and delete
  actions the ids are pairwise distinct. An add gives the new task an id greater than
  every id in the list at that time, so no id in use (and no id below one in use) is
  assigned again; complete leaves the list of ids as it is; delete removes one task and
  leaves the others, ids included, as they are. The claim as stated goes further and
  says that the id of a deleted task is never assigned again: that fails, because
  \<^verbatim>\<open>next_task_id\<close> looks only at the tasks still in the list.
\<close>

theorem ids_unique_and_stable:
  "reachable tasks \<Longrightarrow>
     distinct (map task_id tasks) \<and>
     (add_task tasks wa = (Inr ta, wa') \<longrightarrow>
        (\<exists>t. ta = tasks @ [t] \<and> (\<forall>x\<in>set tasks. task_id x < task_id t))) \<and>
     (mark_complete tasks wc = (Inr tc, wc') \<longrightarrow> map task_id tc = map task_id tasks) \<and>
     (delete_task tasks wd = (Inr td, wd') \<longrightarrow>
        td = tasks \<or> (\<exists>k<length tasks. td = take k tasks @ drop (Suc k) tasks))"
proof -
  assume r: "reachable tasks"
  have a: "\<exists>t. ta = tasks @ [t] \<and> (\<forall>x\<in>set tasks. task_id x < task_id t)"
    if "add_task tasks wa = (Inr ta, wa')"
    using add_task_result [OF that] next_task_id_greater by fastforce
  have c: "map task_id tc = map task_id tasks" if "mark_complete tasks wc = (Inr tc, wc')"
    using mark_complete_result [OF that] by (auto simp: map_task_id_update)
  have d: "td = tasks \<or> (\<exists>k<length tasks. td = take k tasks @ drop (Suc k) tasks)"
    if "delete_task tasks wd = (Inr td, wd')"
    using delete_task_result [OF that] .
  from reachable_distinct [OF r] a c d show ?thesis by blast
qed

theorem ids_unique_and_stable_witness:
  "reachable [\<lparr>task_id = 1, title = ''a'', due_date = None, is_complete = False\<rparr>,
              \<lparr>task_id = 2, title = ''b'', due_date = None, is_complete = False\<rparr>] \<and>
   fst (add_task [\<lparr>task_id = 1, title = ''a'', due_date = None, is_complete = False\<rparr>,
                  \<lparr>task_id = 2, title = ''b'', due_date = None, is_complete = False\<rparr>]
          \<lparr>stdin = [''c'', ''''], stdout = [], disk = Missing\<rparr>) =
     Inr [\<lparr>task_id = 1, title = ''a'', due_date = None, is_complete = False\<rparr>,
          \<lparr>task_id = 2, title = ''b'', due_date = None, is_complete = False\<rparr>,
          \<lparr>task_id = 3, title = ''c'', due_date = None, is_complete = False\<rparr>] \<and>
   fst (mark_complete [\<lparr>task_id = 1, title = ''a'', due_date = None, is_complete = False\<rparr>,
                       \<lparr>task_id = 2, title = ''b'', due_date = None, is_complete = False\<rparr>]
          \<lparr>stdin = [''1''], stdout = [], disk = Missing\<rparr>) =
     Inr [\<lparr>task_id = 1, title = ''a'', due_date = None, is_complete = True\<rparr>,
          \<lparr>task_id = 2, title = ''b'', due_date = None, is_complete = False\<rparr>] \<and>
   fst (delete_task [\<lparr>task_id = 1, title = ''a'', due_date = None, is_complete = False\<rparr>,
                     \<lparr>task_id = 2, title = ''b'', due_date = None, is_complete = False\<rparr>]
          \<lparr>stdin = [''1''], stdout = [], disk = Missing\<rparr>) =
     Inr [\<lparr>task_id = 2, title = ''b'', due_date = None, is_complete = False\<rparr>] \<and>
   distinct (map task_id
     [\<lparr>task_id = 1, title = ''a'', due_date = None, is_complete = False\<rparr>,
      \<lparr>task_id = 2, title = ''b'', due_date = None, is_complete = False\<rparr>])"
proof -
  let ?a = "\<lparr>task_id = 1, title = ''a'', due_date = None, is_complete = False\<rparr>"
  let ?b = "\<lparr>task_id = 2, title = ''b'', due_date = None, is_complete = False\<rparr>"
  obtain v1 where s1: "add_task [] \<lparr>stdin = [''a'', ''''], stdout = [], disk = Missing\<rparr> = (Inr [?a], v1)"
    by (simp add: run_simps)
  obtain v2 where s2: "add_task [?a] \<lparr>stdin = [''b'', ''''], stdout = [], disk = Missing\<rparr> = (Inr [?a, ?b], v2)"
    by (simp add: run_simps)
  have r: "reachable [?a, ?b]"
    by (rule reachable.added [OF reachable.added [OF reachable.start s1] s2])
  obtain wa' where ha: "add_task [?a, ?b] \<lparr>stdin = [''c'', ''''], stdout = [], disk = Missing\<rparr> =
      (Inr [?a, ?b, \<lparr>task_id = 3, title = ''c'', due_date = None, is_complete = False\<rparr>], wa')"
    by (simp add: run_simps)
  obtain wc' where hc: "mark_complete [?a, ?b] \<lparr>stdin = [''1''], stdout = [], disk = Missing\<rparr> =
      (Inr [?a\<lparr>is_complete := True\<rparr>, ?b], wc')"
    by (simp add: run_simps)
  obtain wd' where hd: "delete_task [?a, ?b] \<lparr>stdin = [''1''], stdout = [], disk = Missing\<rparr> =
      (Inr [?b], wd')"
    by (simp add: run_simps)
  from ids_unique_and_stable [OF r] have "distinct (map task_id [?a, ?b])"
    by blast
  with r ha hc hd show ?thesis by simp
qed

text \<open>
  The id of a deleted task is assigned again. With task "a" (id 1) in the list, adding
  "b" gives it id 2; deleting the second task leaves "a"; adding "c" gives it id 2 again.
  The last equation is the same sequence run from the empty collection through the menu
  of the main loop: add "a", add "b", delete number 2, add "c", exit.
\<close>

theorem id_reused_counterexample:
  "fst (add_task [\<lparr>task_id = 1, title = ''a'', due_date = None, is_complete = False\<rparr>]
          \<lparr>stdin = [''b'', ''''], stdout = [], disk = Missing\<rparr>) =
     Inr [\<lparr>task_id = 1, title = ''a'', due_date = None, is_complete = False\<rparr>,
          \<lparr>task_id = 2, title = ''b'', due_date = None, is_complete = False\<rparr>] \<and>
   fst (delete_task [\<lparr>task_id = 1, title = ''a'', due_date = None, is_complete = False\<rparr>,
                     \<lparr>task_id = 2, title = ''b'', due_date = None, is_complete = False\<rparr>]
          \<lparr>stdin = [''2''], stdout = [], disk = Missing\<rparr>) =
     Inr [\<lparr>task_id = 1, title = ''a'', due_date = None, is_complete = False\<rparr>] \<and>
   fst (add_task [\<lparr>task_id = 1, title = ''a'', due_date = None, is_complete = False\<rparr>]
          \<lparr>stdin = [''c'', ''''], stdout = [], disk = Missing\<rparr>) =
     Inr [\<lparr>task_id = 1, title = ''a'', due_date = None, is_complete = False\<rparr>,
          \<lparr>task_id = 2, title = ''c'', due_date = None, is_complete = False\<rparr>] \<and>
   fst (main_loop []
      \<lparr>stdin = [''2'', ''a'', '''', '''', ''2'', ''b'', '''', '''', ''4'', ''2'', '''',
                ''2'', ''c'', '''', '''', ''6''],
       stdout = [], disk = Missing\<rparr>) =
     Inr [\<lparr>task_id = 1, title = ''a'', due_date = None, is_complete = False\<rparr>,
          \<lparr>task_id = 2, title = ''c'', due_date = None, is_complete = False\<rparr>]"
  by (simp add: run_simps)

subsection \<open>C7: the optional date prompt\<close>



subsection \<open>C8: the bounded integer prompt\<close>

text \<open>
  C8. The claim says that every entry that is not a number within the bounds is
  rejected with a new prompt. \<^verbatim>\<open>read_int\<close> guards \<^verbatim>\<open>int(raw)\<close> with
  \<^verbatim>\<open>raw.isdigit()\<close>, and \<^verbatim>\<open>isdigit\<close> holds of digits that \<^verbatim>\<open>int\<close> does not
  accept: on the line consisting of the superscript two (U+00B2), with the bounds 1 and
  6, \<^verbatim>\<open>read_int\<close> raises ValueError after one prompt and the following line
  \<^verbatim>\<open>3\<close> is never read. On the lines \<^verbatim>\<open>9\<close> and \<^verbatim>\<open>3\<close> it prompts, prints the
  message, prompts again and returns 3, as the scenario of the specification says.
  (That a value \<^verbatim>\<open>read_int\<close> returns is within the bounds is lemma
  \<open>read_int_post\<close>.)
\<close>

theorem read_int_superscript_raises:
  "read_int prompt 1 6 \<lparr>stdin = [[CHR 0xB2], ''3''], stdout = [], disk = f\<rparr> =
     (Inl ValueError, \<lparr>stdin = [''3''], stdout = [Prompt prompt], disk = f\<rparr>) \<and>
   read_int prompt 1 6 \<lparr>stdin = [''9'', ''3''], stdout = [], disk = f\<rparr> =
     (Inr 3, \<lparr>stdin = [],
              stdout = [Prompt prompt, Print ''Please enter a number between 1 and 6.'', Prompt prompt],
              disk = f\<rparr>)"
proof -
  have msg: "range_message 1 6 = ''Please enter a number between 1 and 6.''"
    by (simp add: range_message_def int_repr_def nat_repr_digit digit_chars)
  show ?thesis
    by (simp add: read_int_line msg print_def strip_def isspace_def isdigit_def isdigit_char_def
        isdecimal_char_def py_int_def decimal_value_def digit_value_def)
qed

subsection \<open>C4: saving and loading again\<close>

text \<open>
  Claim C4. Saving a collection \<open>tasks\<close> and loading the data file again gives back the
  value that was saved: the list of the same records in the same order, each with its
  id, title, due date (\<open>None\<close> when absent) and completion flag. The file written is the
  text \<open>json.dump\<close> produces with an indentation of 2, and it is read by the model of
  \<open>json.load\<close>. The loaded value determines the records: two collections with the same
  value are the same collection (\<open>json_of_tasks\<close> is injective), so no field and no
  position is lost or changed on the way.
\<close>

theorem save_then_load:
  "load_tasks (save_tasks tasks w) = Inr (json_of_tasks tasks) \<and> inj json_of_tasks"
  by (simp add: load_saved save_tasks_def json_of_tasks_inj)


subsection \<open>C1: what loading returns\<close>

text \<open>
  C1. \<open>load_tasks\<close> returns the empty list when the data file does not exist, when it
  cannot be opened, and when its text is not JSON (as the truncated text \<^verbatim>\<open>[1, 2\<close>).
  It does not return the empty list on every file that is not a record collection, which
  is what its docstring promises of a broken file: a data file holding the text
  \<^verbatim>\<open>42\<close>, or the text \<^verbatim>\<open>[1, 2]\<close>, is JSON and is not a record collection, and
  \<open>load_tasks\<close> returns the number 42, or the list of the numbers 1 and 2; and a data
  file whose bytes are not UTF-8 makes \<open>load_tasks\<close> raise \<open>UnicodeDecodeError\<close>, which
  the \<^verbatim>\<open>except\<close> clause of the source does not list.
\<close>

theorem load_tasks_broken_file:
  "load_tasks (w\<lparr>disk := Missing\<rparr>) = Inr (JArr []) \<and>
   load_tasks (w\<lparr>disk := Unreadable\<rparr>) = Inr (JArr []) \<and>
   load_tasks (w\<lparr>disk := Text ''[1, 2''\<rparr>) = Inr (JArr []) \<and>
   load_tasks (w\<lparr>disk := Text ''42''\<rparr>) = Inr (JInt 42) \<and>
   \<not> spec_record_collection (JInt 42) \<and>
   load_tasks (w\<lparr>disk := Text ''[1, 2]''\<rparr>) = Inr (JArr [JInt 1, JInt 2]) \<and>
   \<not> spec_record_collection (JArr [JInt 1, JInt 2]) \<and>
   load_tasks (w\<lparr>disk := Undecodable\<rparr>) = Inl UnicodeDecodeError"
proof -
  have "json_loads ''[1, 2'' = None" "json_loads ''42'' = Some (JInt 42)"
    "json_loads ''[1, 2]'' = Some (JArr [JInt 1, JInt 2])"
    by code_simp+
  then show ?thesis by (simp add: load_tasks_def open_and_load_def)
qed

end
